theory Spec2Isabelle
  imports Complex_Main
begin

section \<open>Exceptions\<close>

text \<open>
  The Python exceptions the modelled code can raise.  A function that can raise returns
  \<open>error + 'a\<close>, with \<open>Inl\<close> for the exception.
\<close>

datatype error = AssertionError | IndexError | KeyError | RuntimeError | AttributeError | InputError

section \<open>utils/distance.py\<close>

text \<open>
  A Python string is the list of its code points: the characters of the labels are
  Korean, each one code point and several bytes.  The space is code point 32.
\<close>

type_synonym py_str = "nat list"

text \<open>
  \<open>str.replace(' ', '')\<close>: every space character is dropped, the other characters keep
  their order.
\<close>

definition replace_space :: "py_str \<Rightarrow> py_str" where
  "replace_space s = filter (\<lambda>c. c \<noteq> 32) s"

text \<open>
  \<open>Lev.distance\<close> of the python-Levenshtein package: the Levenshtein distance, with unit
  costs for insertion, deletion and substitution.
\<close>

fun Lev_distance :: "'a list \<Rightarrow> 'a list \<Rightarrow> nat" where
  "Lev_distance [] bs = length bs"
| "Lev_distance (a # as) [] = Suc (length as)"
| "Lev_distance (a # as) (b # bs) =
     min (Lev_distance as bs + (if a = b then 0 else 1))
         (min (Lev_distance as (b # bs) + 1) (Lev_distance (a # as) bs + 1))"

text \<open>
  The edit distance in words: \<open>edit_steps as bs n\<close> holds when \<open>as\<close> becomes \<open>bs\<close> by
  going through it once, keeping a character, or substituting, inserting or deleting one,
  with \<open>n\<close> substitutions, insertions and deletions in all.  The edit distance is the least
  such \<open>n\<close>.
\<close>

inductive edit_steps :: "'a list \<Rightarrow> 'a list \<Rightarrow> nat \<Rightarrow> bool" where
  e_nil: "edit_steps [] [] 0"
| e_keep: "edit_steps as bs n \<Longrightarrow> edit_steps (a # as) (a # bs) n"
| e_sub: "edit_steps as bs n \<Longrightarrow> edit_steps (a # as) (b # bs) (Suc n)"
| e_ins: "edit_steps as bs n \<Longrightarrow> edit_steps as (b # bs) (Suc n)"
| e_del: "edit_steps as bs n \<Longrightarrow> edit_steps (a # as) bs (Suc n)"

code_pred edit_steps .

definition char_distance :: "py_str \<Rightarrow> py_str \<Rightarrow> nat \<times> nat" where
  "char_distance target y_hat =
     (let target' = replace_space target;
          y_hat' = replace_space y_hat;
          distance = Lev_distance y_hat' target';
          length' = length (replace_space target')
      in (distance, length'))"

text \<open>
  Modelled from the spec: \<open>label_to_string\<close> lives in \<open>utils/label.py\<close>, which is
  not among the sources.  The spec says that the scorer receives an id sequence, an
  id-to-character mapping and the EOS id and strips the content at and after EOS.  The
  mapping is a Python dict (\<open>id2char[id] = ch\<close>), so an id without an entry raises
  \<open>KeyError\<close>.
\<close>

fun id2char_join :: "(nat \<rightharpoonup> py_str) \<Rightarrow> nat list \<Rightarrow> error + py_str" where
  "id2char_join id2char [] = Inr []"
| "id2char_join id2char (i # is) =
     (case id2char i of
        None \<Rightarrow> Inl KeyError
      | Some ch \<Rightarrow>
         (case id2char_join id2char is of
            Inl e \<Rightarrow> Inl e
          | Inr sent \<Rightarrow> Inr (ch @ sent)))"

definition label_to_string :: "nat list \<Rightarrow> (nat \<rightharpoonup> py_str) \<Rightarrow> nat \<Rightarrow> error + py_str" where
  "label_to_string labels id2char eos_id =
     id2char_join id2char (takeWhile (\<lambda>i. i \<noteq> eos_id) labels)"

text \<open>
  The loop \<open>for i in range(len(targets))\<close> of \<open>get_distance\<close>, over the indices still
  to visit, with the two running totals.  \<open>y_hats[i]\<close> raises \<open>IndexError\<close> when
  \<open>y_hats\<close> is shorter than \<open>targets\<close>; \<open>targets[i]\<close> cannot, the indices being
  those of \<open>targets\<close>.
\<close>

fun get_distance_loop ::
  "nat list \<Rightarrow> nat list list \<Rightarrow> nat list list \<Rightarrow> (nat \<rightharpoonup> py_str) \<Rightarrow> nat \<Rightarrow> nat \<times> nat
   \<Rightarrow> error + nat \<times> nat" where
  "get_distance_loop [] targets y_hats id2char eos_id totals = Inr totals"
| "get_distance_loop (i # is) targets y_hats id2char eos_id (total_distance, total_length) =
     (case label_to_string (targets ! i) id2char eos_id of
        Inl e \<Rightarrow> Inl e
      | Inr target \<Rightarrow>
         (if length y_hats \<le> i then Inl IndexError
          else case label_to_string (y_hats ! i) id2char eos_id of
            Inl e \<Rightarrow> Inl e
          | Inr y_hat \<Rightarrow>
             (case char_distance target y_hat of
                (distance, length') \<Rightarrow>
                  get_distance_loop is targets y_hats id2char eos_id
                    (total_distance + distance, total_length + length'))))"

definition get_distance ::
  "nat list list \<Rightarrow> nat list list \<Rightarrow> (nat \<rightharpoonup> py_str) \<Rightarrow> nat \<Rightarrow> error + nat \<times> nat" where
  "get_distance targets y_hats id2char eos_id =
     get_distance_loop [0..<length targets] targets y_hats id2char eos_id (0, 0)"

text \<open>
  The string of an id sequence, with the content at and after EOS stripped and the spaces
  removed; and the condition that every id before EOS has a character.
\<close>

definition stripped :: "(nat \<rightharpoonup> py_str) \<Rightarrow> nat \<Rightarrow> nat list \<Rightarrow> py_str" where
  "stripped id2char eos_id labels =
     replace_space (concat (map (\<lambda>i. the (id2char i)) (takeWhile (\<lambda>i. i \<noteq> eos_id) labels)))"

definition known_ids :: "(nat \<rightharpoonup> py_str) \<Rightarrow> nat \<Rightarrow> nat list \<Rightarrow> bool" where
  "known_ids id2char eos_id labels =
     list_all (\<lambda>i. id2char i \<noteq> None) (takeWhile (\<lambda>i. i \<noteq> eos_id) labels)"

section \<open>Tensors\<close>

text \<open>
  A tensor is a nested list, outermost dimension first.  The entries of the score tensors
  are floats; they are modelled as reals, so rounding and NaN are outside the model.  A
  feature vector of \<open>hidden_size\<close> entries is a value of the type parameter \<open>'v\<close>: the
  decoder never looks inside one, it only hands vectors from one module to the next.
\<close>

text \<open>\<open>t.size(1)\<close> of a tensor of two or more dimensions, read off its first row.\<close>

definition size1 :: "'a list list \<Rightarrow> nat" where
  "size1 t = (case t of [] \<Rightarrow> 0 | row # _ \<Rightarrow> length row)"

text \<open>The first exception raised by a list of computations, or all their results.\<close>

fun collect :: "(error + 'a) list \<Rightarrow> error + 'a list" where
  "collect [] = Inr []"
| "collect (r # rs) =
     (case r of
        Inl e \<Rightarrow> Inl e
      | Inr x \<Rightarrow> (case collect rs of Inl e \<Rightarrow> Inl e | Inr xs \<Rightarrow> Inr (x # xs)))"

text \<open>
  The index of the maximum of a score vector, as \<open>max(-1)[1]\<close> returns it: among equal
  maxima the first index.
\<close>

fun list_max :: "real list \<Rightarrow> real" where
  "list_max [] = 0"
| "list_max (x # xs) = fold max xs x"

definition argmax_idx :: "real list \<Rightarrow> nat" where
  "argmax_idx xs = length (takeWhile (\<lambda>x. x < list_max xs) xs)"

text \<open>
  \<open>t.max(-1)[1]\<close> on a tensor \<open>[B, T, V]\<close>; torch refuses to reduce over an empty
  dimension.
\<close>

definition max_last :: "real list list list \<Rightarrow> error + nat list list" where
  "max_last t =
     (if list_ex (list_ex (\<lambda>d. d = [])) t then Inl RuntimeError
      else Inr (map (map argmax_idx) t))"

text \<open>
  \<open>t.topk(1)[1]\<close> on a tensor \<open>[B, V]\<close>: a tensor \<open>[B, 1]\<close> of indices.  Among equal
  maxima torch's \<open>topk\<close> need not take the index that \<open>max\<close> takes (on the scores
  \<open>[1, 0, 0, 1]\<close> it can return \<open>3\<close> where \<open>max\<close> returns \<open>0\<close>): which one it takes is
  left to the parameter \<open>topk\<close>, the index \<open>topk(1)\<close> returns on one score vector.
\<close>

definition topk1 :: "(real list \<Rightarrow> nat) \<Rightarrow> real list list \<Rightarrow> error + nat list list" where
  "topk1 topk t =
     (if list_ex (\<lambda>d. d = []) t then Inl RuntimeError
      else Inr (map (\<lambda>d. [topk d]) t))"

text \<open>
  \<open>torch.stack(rs, dim=1)\<close> of a list of \<open>T\<close> tensors \<open>[B, V]\<close>: the tensor
  \<open>[B, T, V]\<close>.  Stacking an empty list raises.
\<close>

definition stack_dim1 :: "'a list list \<Rightarrow> error + 'a list list" where
  "stack_dim1 rs =
     (case rs of
        [] \<Rightarrow> Inl RuntimeError
      | r # _ \<Rightarrow> Inr (map (\<lambda>b. map (\<lambda>r'. r' ! b) rs) [0..<length r]))"

text \<open>
  One row of \<open>t.view(batch_size, output_size, -1)\<close>, for the rows \<open>ds\<close> that one batch
  element contributes to the two-dimensional tensor \<open>t\<close>: its entries are cut into
  \<open>output_size\<close> pieces of equal length.  The view raises when the entries do not divide,
  and when \<open>output_size\<close> is zero.
\<close>

definition view_row :: "nat \<Rightarrow> 'a list list \<Rightarrow> error + 'a list list" where
  "view_row output_size' ds =
     (let flat = concat ds; n = length flat in
      if output_size' = 0 then Inl RuntimeError
      else if n mod output_size' \<noteq> 0 then Inl RuntimeError
      else Inr (map (\<lambda>i. take (n div output_size') (drop (i * (n div output_size')) flat))
                  [0..<output_size']))"

section \<open>Random sources\<close>

text \<open>
  A generator is the sequence of the numbers in \<open>[0, 1)\<close> it will produce and the position
  of the next one.  Python's \<open>random\<close> module and torch each have one; both are global
  state of the process, passed explicitly here.
\<close>

record generator =
  gen_draws :: "nat \<Rightarrow> real"
  gen_pos :: nat

record rand_state =
  py_random :: generator
  torch_random :: generator

text \<open>\<open>random.random()\<close>\<close>

definition random_random :: "generator \<Rightarrow> real \<times> generator" where
  "random_random g = (gen_draws g (gen_pos g), g\<lparr>gen_pos := gen_pos g + 1\<rparr>)"

text \<open>
  \<open>torch.FloatTensor(d0, d1, d2).uniform_(lo, hi)\<close> (the name cannot end in an underscore
  here): a tensor \<open>[d0, d1, d2]\<close> filled, in
  row-major order, with the next \<open>d0 * d1 * d2\<close> draws scaled to the interval.
\<close>

definition uniform ::
  "nat \<Rightarrow> nat \<Rightarrow> nat \<Rightarrow> real \<Rightarrow> real \<Rightarrow> generator \<Rightarrow> real list list list \<times> generator" where
  "uniform d0 d1 d2 lo hi g =
     (map (\<lambda>i. map (\<lambda>j. map (\<lambda>l. lo + (hi - lo) * gen_draws g (gen_pos g + (i * d1 + j) * d2 + l))
                          [0..<d2]) [0..<d1]) [0..<d0],
      g\<lparr>gen_pos := gen_pos g + d0 * d1 * d2\<rparr>)"

section \<open>models/speller.py: the decoder object\<close>

datatype cell_kind = LSTM | GRU | RNN

text \<open>
  The fields of a \<open>Speller\<close>.  A torch module is the function it computes with the weights
  it holds, on one batch element (torch modules treat the batch elements independently):
  \<^item> \<open>rnn\<close> maps the embedded tokens of a row and the row's slice \<open>[layer_size, hidden_size]\<close>
    of the hidden state to the recurrent outputs, or raises;
  \<^item> \<open>embedding\<close> maps a token id to its vector;
  \<^item> \<open>input_dropout\<close> is the dropout with its mask (the identity in evaluation mode and
    for \<open>dropout_p = 0\<close>; the draws of a mask in training mode are not modelled);
  \<^item> \<open>attention\<close> is set only when \<open>use_attention\<close> holds;
  \<^item> \<open>out\<close> is the linear layer onto the vocabulary.
  The field \<open>k\<close> is called \<open>k_beam\<close>.  The field \<open>device\<close> only places tensors and is left out.
\<close>

record 'v speller =
  rnn_cell :: cell_kind
  rnn :: "'v list \<Rightarrow> real list list \<Rightarrow> error + 'v list"
  output_size :: nat
  max_len :: nat
  use_attention :: bool
  eos_id :: nat
  sos_id :: nat
  hidden_size :: nat
  embedding :: "nat \<Rightarrow> 'v"
  layer_size :: nat
  input_dropout :: "'v \<Rightarrow> 'v"
  k_beam :: nat
  attention :: "('v list \<Rightarrow> 'v list \<Rightarrow> error + 'v list) option"
  out :: "'v \<Rightarrow> real list"

text \<open>
  The module constructors \<open>__init__\<close> calls.  Each builds a module with fresh weights, or
  raises (torch checks its arguments, for instance the range of a dropout probability).
  \<open>nn_rnn\<close> stands for the three classes \<open>nn.LSTM\<close>, \<open>nn.GRU\<close> and \<open>nn.RNN\<close>.
\<close>

record 'v torch_nn =
  nn_rnn :: "cell_kind \<Rightarrow> nat \<Rightarrow> nat \<Rightarrow> nat \<Rightarrow> real
             \<Rightarrow> error + ('v list \<Rightarrow> real list list \<Rightarrow> error + 'v list)"
  nn_Embedding :: "nat \<Rightarrow> nat \<Rightarrow> error + (nat \<Rightarrow> 'v)"
  nn_Dropout :: "real \<Rightarrow> error + ('v \<Rightarrow> 'v)"
  nn_Linear :: "nat \<Rightarrow> nat \<Rightarrow> error + ('v \<Rightarrow> real list)"
  nn_Attention :: "nat \<Rightarrow> error + ('v list \<Rightarrow> 'v list \<Rightarrow> error + 'v list)"

text \<open>
  \<open>str.lower()\<close> on a string of code points below 256: the ASCII capitals and the Latin-1
  capitals (all of \<open>0xC0..0xDE\<close> but the multiplication sign) move up by 32.
\<close>

definition lower_char :: "char \<Rightarrow> char" where
  "lower_char c =
     (let n = (of_char c :: nat) in
      if (65 \<le> n \<and> n \<le> 90) \<or> (192 \<le> n \<and> n \<le> 222 \<and> n \<noteq> 215) then char_of (n + 32) else c)"

definition lower :: "string \<Rightarrow> string" where
  "lower s = map lower_char s"

text \<open>\<open>Speller.__init__\<close>; the assertion comes first, then the modules in the source's order.\<close>

definition Speller_init ::
  "'v torch_nn \<Rightarrow> nat \<Rightarrow> nat \<Rightarrow> nat \<Rightarrow> nat \<Rightarrow> nat \<Rightarrow> nat \<Rightarrow> string \<Rightarrow> real \<Rightarrow> bool \<Rightarrow> nat
   \<Rightarrow> error + 'v speller" where
  "Speller_init nn vocab_size max_len' hidden_size' sos_id' eos_id' layer_size' rnn_cell' dropout_p
       use_attention' k =
     (if \<not> (lower rnn_cell' = ''lstm'' \<or> lower rnn_cell' = ''gru'' \<or> lower rnn_cell' = ''rnn'')
      then Inl AssertionError
      else
        let cell = (if lower rnn_cell' = ''lstm'' then LSTM
                    else if lower rnn_cell' = ''gru'' then GRU else RNN) in
        case nn_rnn nn cell hidden_size' hidden_size' layer_size' dropout_p of
          Inl e \<Rightarrow> Inl e
        | Inr rnn' \<Rightarrow>
        (case nn_Embedding nn vocab_size hidden_size' of
          Inl e \<Rightarrow> Inl e
        | Inr embedding' \<Rightarrow>
        (case nn_Dropout nn dropout_p of
          Inl e \<Rightarrow> Inl e
        | Inr input_dropout' \<Rightarrow>
        (case (if use_attention' then map_sum id Some (nn_Attention nn hidden_size') else Inr None) of
          Inl e \<Rightarrow> Inl e
        | Inr attention' \<Rightarrow>
        (case nn_Linear nn hidden_size' vocab_size of
          Inl e \<Rightarrow> Inl e
        | Inr out' \<Rightarrow>
            Inr \<lparr>rnn_cell = cell, rnn = rnn', output_size = vocab_size, max_len = max_len',
                 use_attention = use_attention', eos_id = eos_id', sos_id = sos_id',
                 hidden_size = hidden_size', embedding = embedding', layer_size = layer_size',
                 input_dropout = input_dropout', k_beam = k, attention = attention',
                 out = out'\<rparr>)))))"

section \<open>models/attention.py\<close>

text \<open>
  Modelled from the spec: the softmax that normalises the alignment scores of one decode
  position (\<open>models/attention.py\<close> is not among the sources).
\<close>

definition softmax :: "real list \<Rightarrow> real list" where
  "softmax xs = map (\<lambda>x. exp x / sum_list (map exp xs)) xs"

text \<open>
  Modelled from the spec: the class \<open>Attention\<close> lives in \<open>models/attention.py\<close>, which is
  not among the sources.  The spec gives its contract on one batch element: for each decode
  position an alignment score against every encoder timestep by inner product, the scores
  normalised by softmax over the encoder-time dimension, and the context as the sum of the
  encoder outputs weighted by them; an empty encoder-time dimension is rejected as an input
  error.  The inner product and the weighted sum of vectors are parameters.
\<close>

definition Attention_forward ::
  "('v \<Rightarrow> 'v \<Rightarrow> real) \<Rightarrow> ((real \<times> 'v) list \<Rightarrow> 'v) \<Rightarrow> 'v list \<Rightarrow> 'v list \<Rightarrow> error + 'v list" where
  "Attention_forward inner weighted_sum decoder_output encoder_outputs =
     (if encoder_outputs = [] then Inl InputError
      else Inr (map (\<lambda>q. weighted_sum
                            (zip (softmax (map (inner q) encoder_outputs)) encoder_outputs))
                  decoder_output))"

section \<open>models/speller.py: one decoding step\<close>

text \<open>
  \<open>Speller._forward_step\<close> (a name cannot start with an underscore here), statement by
  statement on the whole batch: \<open>input\<close> is
  \<open>[B, L]\<close>, \<open>speller_hidden\<close> is \<open>[layer_size, B, hidden_size]\<close>, \<open>listener_outputs\<close>
  is \<open>[B, enc_len]\<close> vectors, the result is \<open>[B, L, V]\<close>.
  \<^item> The embedding raises \<open>IndexError\<close> on an id outside the vocabulary.
  \<^item> The recurrent module raises when the batch dimension of the hidden state is not \<open>B\<close>.
    Only its output is used: the hidden state it returns is dropped.
  \<^item> The attention is called only under \<open>use_attention\<close>; otherwise the recurrent output
    is the context and \<open>listener_outputs\<close> is not read.  A decoder without the attribute
    \<open>attention\<close> raises \<open>AttributeError\<close>; encoder outputs for another batch size are an
    input error of the attention.
  \<^item> \<open>function\<close> works along \<open>dim=1\<close>, that is on the scores of each position.
  \<^item> The final view raises on a tensor without elements, so on an empty batch.
\<close>

definition forward_step ::
  "'v speller \<Rightarrow> nat list list \<Rightarrow> real list list list \<Rightarrow> 'v list list \<Rightarrow> (real list \<Rightarrow> real list)
   \<Rightarrow> error + real list list list" where
  "forward_step self input speller_hidden listener_outputs function =
     (let batch_size = length input;
          output_size' = size1 input
      in
      if list_ex (list_ex (\<lambda>token. output_size self \<le> token)) input then Inl IndexError
      else
        let embedded = map (map (embedding self)) input;
            embedded = map (map (input_dropout self)) embedded
        in
        if list_ex (\<lambda>layer. length layer \<noteq> batch_size) speller_hidden then Inl RuntimeError
        else
          case collect (map (\<lambda>b. rnn self (embedded ! b) (map (\<lambda>layer. layer ! b) speller_hidden))
                          [0..<batch_size]) of
            Inl e \<Rightarrow> Inl e
          | Inr speller_output \<Rightarrow>
             (case (if use_attention self then
                      (case attention self of
                         None \<Rightarrow> Inl AttributeError
                       | Some attention' \<Rightarrow>
                          if length listener_outputs \<noteq> batch_size then Inl InputError
                          else collect (map (\<lambda>b. attention' (speller_output ! b) (listener_outputs ! b))
                                          [0..<batch_size]))
                    else Inr speller_output) of
                Inl e \<Rightarrow> Inl e
              | Inr context \<Rightarrow>
                 if batch_size = 0 then Inl RuntimeError
                 else collect (map (\<lambda>c. view_row output_size' (map (\<lambda>v. function (out self v)) c))
                                 context)))"

section \<open>models/beam.py\<close>

text \<open>
  Modelled from the spec: the class \<open>Beam\<close> lives in \<open>models/beam.py\<close>, which is not
  among the sources.  The spec's Hypothesis and Beam, and its search, are followed point
  by point; the expansion primitive is the decoder's \<open>_forward_step\<close> above (the search
  is given the decoder itself), which returns the distributions only, so that a candidate
  carries the hidden state of its parent unchanged.  A Hypothesis of the spec:
\<close>

record hypothesis =
  token_sequence :: "nat list"
  cumulative_log_score :: real
  hidden_state :: "real list list"
  is_terminated :: bool

text \<open>
  Modelled from the spec: the \<open>n\<close> best entries of a scored list, best first; of equal
  scores the earlier entry comes first (the stable index order of the spec's tie-break).
\<close>

fun top_k :: "nat \<Rightarrow> ('a \<times> real) list \<Rightarrow> ('a \<times> real) list" where
  "top_k 0 cs = []"
| "top_k (Suc n) cs =
     (if cs = [] then []
      else let i = argmax_idx (map snd cs) in cs ! i # top_k n (take i cs @ drop (Suc i) cs))"

text \<open>
  Modelled from the spec: the candidates of one hypothesis, its \<open>k\<close> best next tokens,
  each scored by the parent's score plus the token's log-probability, terminated when the
  token is EOS, and with the parent's hidden state.
\<close>

definition Beam_extend :: "nat \<Rightarrow> nat \<Rightarrow> hypothesis \<Rightarrow> real list \<Rightarrow> hypothesis list" where
  "Beam_extend k eos parent scores =
     map (\<lambda>(token, log_prob).
            \<lparr>token_sequence = token_sequence parent @ [token],
             cumulative_log_score = cumulative_log_score parent + log_prob,
             hidden_state = hidden_state parent,
             is_terminated = (token = eos)\<rparr>)
         (top_k k (zip [0..<length scores] scores))"

text \<open>
  Modelled from the spec: one step of the search.  The current tokens and hidden states of
  the active hypotheses are batched into one call of the step decoder; the terminated
  hypotheses keep their score and are not expanded, but stay in the ranking (ahead of a
  candidate of the same score); the new beam is the \<open>k\<close> best of the pool.
\<close>

definition Beam_step ::
  "'v speller \<Rightarrow> 'v list \<Rightarrow> (real list \<Rightarrow> real list) \<Rightarrow> nat \<Rightarrow> hypothesis list
   \<Rightarrow> error + hypothesis list" where
  "Beam_step decoder listener_row function k beam =
     (let active = filter (\<lambda>h. \<not> is_terminated h) beam;
          input = map (\<lambda>h. [last (token_sequence h)]) active;
          hidden = map (\<lambda>l. map (\<lambda>h. hidden_state h ! l) active) [0..<layer_size decoder];
          listener = replicate (length active) listener_row
      in
      case forward_step decoder input hidden listener function of
        Inl e \<Rightarrow> Inl e
      | Inr predicted \<Rightarrow>
          let candidates =
                concat (map (\<lambda>(h, p). Beam_extend k (eos_id decoder) h (concat p))
                          (zip active predicted));
              pool = filter is_terminated beam @ candidates
          in Inr (map fst (top_k k (map (\<lambda>h. (h, cumulative_log_score h)) pool))))"

text \<open>
  Modelled from the spec: the search stops when every hypothesis of the beam is terminated
  or when \<open>max_len\<close> steps are done, whichever comes first.
\<close>

fun Beam_loop ::
  "'v speller \<Rightarrow> 'v list \<Rightarrow> (real list \<Rightarrow> real list) \<Rightarrow> nat \<Rightarrow> nat \<Rightarrow> hypothesis list
   \<Rightarrow> error + hypothesis list" where
  "Beam_loop decoder listener_row function k 0 beam = Inr beam"
| "Beam_loop decoder listener_row function k (Suc n) beam =
     (if list_all is_terminated beam then Inr beam
      else case Beam_step decoder listener_row function k beam of
        Inl e \<Rightarrow> Inl e
      | Inr beam' \<Rightarrow> Beam_loop decoder listener_row function k n beam')"

text \<open>
  Modelled from the spec: the search for one batch element.  The beam starts as \<open>k\<close>
  copies of the hypothesis of the initial token, with the initial hidden state; the result
  is the token sequence of the best hypothesis without the leading initial token.  A beam
  of width zero has no best hypothesis.
\<close>

definition Beam_search_row ::
  "'v speller \<Rightarrow> 'v list \<Rightarrow> (real list \<Rightarrow> real list) \<Rightarrow> nat \<Rightarrow> nat \<Rightarrow> nat \<Rightarrow> real list list
   \<Rightarrow> error + nat list" where
  "Beam_search_row decoder listener_row function k max_len' token hidden =
     (case Beam_loop decoder listener_row function k max_len'
             (replicate k \<lparr>token_sequence = [token], cumulative_log_score = 0,
                           hidden_state = hidden, is_terminated = False\<rparr>) of
        Inl e \<Rightarrow> Inl e
      | Inr [] \<Rightarrow> Inl InputError
      | Inr (best # _) \<Rightarrow> Inr (tl (token_sequence best)))"

text \<open>
  Modelled from the spec: \<open>Beam(k, decoder_hidden, decoder, batch_size, max_len,
  function).search(inputs, listener_outputs)\<close>, with the arguments \<open>forward\<close> passes.
  Each batch element has its own beam, on its own slice of the hidden state and its own
  encoder outputs; mismatched batch sizes are an input error.
\<close>

definition Beam_search ::
  "nat \<Rightarrow> real list list list \<Rightarrow> 'v speller \<Rightarrow> nat \<Rightarrow> nat \<Rightarrow> (real list \<Rightarrow> real list)
   \<Rightarrow> nat list list \<Rightarrow> 'v list list \<Rightarrow> error + nat list list" where
  "Beam_search k decoder_hidden decoder batch_size max_len' function inputs listener_outputs =
     (if use_attention decoder \<and> length listener_outputs \<noteq> batch_size then Inl InputError
      else collect (map (\<lambda>b. Beam_search_row decoder
                                (if use_attention decoder then listener_outputs ! b else [])
                                function k max_len' (inputs ! b ! 0)
                                (map (\<lambda>layer. layer ! b) decoder_hidden))
                      [0..<batch_size]))"

section \<open>models/speller.py: a decode call\<close>

text \<open>
  The end of \<open>forward\<close> in the two modes without beam search: the step outputs are
  stacked into \<open>logit\<close> and \<open>y_hats\<close> is read off it.
\<close>

definition decode_output ::
  "real list list list \<Rightarrow> error + nat list list \<times> real list list list option" where
  "decode_output decode_results =
     (case stack_dim1 decode_results of
        Inl e \<Rightarrow> Inl e
      | Inr logit \<Rightarrow>
         (case max_last logit of
            Inl e \<Rightarrow> Inl e
          | Inr y_hats \<Rightarrow> Inr (y_hats, Some logit)))"

text \<open>
  The teacher-forced branch: one call of the step on \<open>inputs[:, :-1]\<close>, then one entry of
  \<open>decode_results\<close> for each position of its result.
\<close>

definition teacher_forced ::
  "'v speller \<Rightarrow> nat list list \<Rightarrow> real list list list \<Rightarrow> 'v list list \<Rightarrow> (real list \<Rightarrow> real list)
   \<Rightarrow> error + nat list list \<times> real list list list option" where
  "teacher_forced self inputs speller_hidden listener_outputs function =
     (let inputs' = map butlast inputs in
      case forward_step self inputs' speller_hidden listener_outputs function of
        Inl e \<Rightarrow> Inl e
      | Inr predicted_softmax \<Rightarrow>
          decode_output (map (\<lambda>di. map (\<lambda>row. row ! di) predicted_softmax)
                           [0..<size1 predicted_softmax]))"

text \<open>
  The loop \<open>for di in range(max_len)\<close> of the free-running branch, with the number of
  iterations left, the current \<open>input\<close> and \<open>decode_results\<close>.  \<open>speller_hidden\<close> is the
  same in every iteration.  \<open>squeeze(1)\<close> drops the dimension of size one that the step
  returns for an input of one token a row.  The next \<open>input\<close> is
  \<open>decode_results[-1].topk(1)[1]\<close>, with \<open>topk\<close> the index that torch's \<open>topk(1)\<close> returns
  on one score vector.
\<close>

fun free_running_loop ::
  "(real list \<Rightarrow> nat) \<Rightarrow> 'v speller \<Rightarrow> real list list list \<Rightarrow> 'v list list
   \<Rightarrow> (real list \<Rightarrow> real list) \<Rightarrow> nat \<Rightarrow> nat list list \<Rightarrow> real list list list
   \<Rightarrow> error + real list list list" where
  "free_running_loop topk self speller_hidden listener_outputs function 0 input decode_results =
     Inr decode_results"
| "free_running_loop topk self speller_hidden listener_outputs function (Suc n) input decode_results =
     (case forward_step self input speller_hidden listener_outputs function of
        Inl e \<Rightarrow> Inl e
      | Inr predicted_softmax \<Rightarrow>
          let step_output = map concat predicted_softmax;
              decode_results' = decode_results @ [step_output]
          in (case topk1 topk (last decode_results') of
                Inl e \<Rightarrow> Inl e
              | Inr input' \<Rightarrow>
                  free_running_loop topk self speller_hidden listener_outputs function n input'
                    decode_results'))"

text \<open>The free-running branch; \<open>inputs[:, 0]\<close> raises on rows without a first token.\<close>

definition free_running ::
  "(real list \<Rightarrow> nat) \<Rightarrow> 'v speller \<Rightarrow> nat list list \<Rightarrow> real list list list \<Rightarrow> 'v list list
   \<Rightarrow> (real list \<Rightarrow> real list)
   \<Rightarrow> error + nat list list \<times> real list list list option" where
  "free_running topk self inputs speller_hidden listener_outputs function =
     (let max_len' = size1 inputs - 1 in
      if inputs \<noteq> [] \<and> size1 inputs = 0 then Inl IndexError
      else
        let input = map (\<lambda>row. [row ! 0]) inputs in
        case free_running_loop topk self speller_hidden listener_outputs function max_len' input [] of
          Inl e \<Rightarrow> Inl e
        | Inr decode_results \<Rightarrow> decode_output decode_results)"

text \<open>
  \<open>Speller.forward\<close>.  \<open>inputs\<close> is \<open>[B, L]\<close>; an empty batch is represented without its
  width.  The local \<open>max_len\<close> is \<open>inputs.size(1) - 1\<close>; the field \<open>self.max_len\<close> is not
  read.  \<open>listener_hidden\<close> is not read either.  The two random draws come first, whatever
  the mode; the result is the pair \<open>(y_hats, logit)\<close>, or the exception, and the random
  sources after the call.  \<open>topk\<close> is the index that torch's \<open>topk(1)\<close> returns on one score
  vector; only the free-running branch calls it.
\<close>

definition forward ::
  "(real list \<Rightarrow> nat) \<Rightarrow> 'v speller \<Rightarrow> nat list list \<Rightarrow> 'h \<Rightarrow> 'v list list
   \<Rightarrow> (real list \<Rightarrow> real list) \<Rightarrow> real \<Rightarrow> bool \<Rightarrow> rand_state
   \<Rightarrow> (error + nat list list \<times> real list list list option) \<times> rand_state" where
  "forward topk self inputs listener_hidden listener_outputs function teacher_forcing_ratio
       use_beam_search rs =
     (let batch_size = length inputs;
          max_len' = size1 inputs - 1;
          (speller_hidden, torch') =
             uniform (layer_size self) batch_size (hidden_size self) (- 0.1) 0.1 (torch_random rs);
          (r, py') = random_random (py_random rs);
          use_teacher_forcing = (r < teacher_forcing_ratio);
          rs' = \<lparr>py_random = py', torch_random = torch'\<rparr>
      in
      (if use_beam_search then
         (if inputs \<noteq> [] \<and> size1 inputs = 0 then Inl IndexError
          else
            let inputs' = map (\<lambda>row. [row ! 0]) inputs in
            case Beam_search (k_beam self) speller_hidden self batch_size max_len' function
                   inputs' listener_outputs of
              Inl e \<Rightarrow> Inl e
            | Inr y_hats \<Rightarrow> Inr (y_hats, None))
       else if use_teacher_forcing then
         teacher_forced self inputs speller_hidden listener_outputs function
       else
         free_running topk self inputs speller_hidden listener_outputs function,
       rs'))"

section \<open>Notions for the statements\<close>

text \<open>
  What \<open>_forward_step\<close> does to one batch element: \<open>tokens\<close> is its row of \<open>input\<close>,
  \<open>hidden\<close> its slice of the hidden state, \<open>listener\<close> its encoder outputs, and
  \<open>output_size'\<close> is \<open>input.size(1)\<close>.
\<close>

definition forward_step_row ::
  "'v speller \<Rightarrow> nat \<Rightarrow> nat list \<Rightarrow> real list list \<Rightarrow> 'v list \<Rightarrow> (real list \<Rightarrow> real list)
   \<Rightarrow> error + real list list" where
  "forward_step_row self output_size' tokens hidden listener function =
     (if list_ex (\<lambda>token. output_size self \<le> token) tokens then Inl IndexError
      else case rnn self (map (input_dropout self) (map (embedding self) tokens)) hidden of
        Inl e \<Rightarrow> Inl e
      | Inr speller_output \<Rightarrow>
         (case (if use_attention self then
                  (case attention self of
                     None \<Rightarrow> Inl AttributeError
                   | Some attention' \<Rightarrow> attention' speller_output listener)
                else Inr speller_output) of
            Inl e \<Rightarrow> Inl e
          | Inr context \<Rightarrow> view_row output_size' (map (\<lambda>v. function (out self v)) context)))"

text \<open>
  The modules of a decoder work on every input they are given here: the vocabulary is not
  empty and \<open>function\<close> after the linear layer returns one score for each of its tokens;
  the recurrent module returns one output for each position of a non-empty row, given a
  hidden state of \<open>layer_size\<close> layers of \<open>hidden_size\<close> entries; under \<open>use_attention\<close> the attention is set and
  returns one context for each position, given a non-empty encoder sequence.
\<close>

definition modules_ok :: "'v speller \<Rightarrow> (real list \<Rightarrow> real list) \<Rightarrow> bool" where
  "modules_ok self function \<longleftrightarrow>
     0 < output_size self
     \<and> (\<forall>v. length (function (out self v)) = output_size self)
     \<and> (\<forall>xs hid. xs \<noteq> [] \<and> length hid = layer_size self
                 \<and> (\<forall>row\<in>set hid. length row = hidden_size self)
           \<longrightarrow> (\<exists>ys. rnn self xs hid = Inr ys \<and> length ys = length xs))
     \<and> (use_attention self
           \<longrightarrow> (\<exists>att. attention self = Some att
                  \<and> (\<forall>q enc. enc \<noteq> [] \<longrightarrow> (\<exists>c. att q enc = Inr c \<and> length c = length q))))"

text \<open>Under \<open>use_attention\<close>, every batch element has a non-empty encoder sequence.\<close>

definition listener_ok :: "'v speller \<Rightarrow> 'v list list \<Rightarrow> nat \<Rightarrow> bool" where
  "listener_ok self listener_outputs batch_size \<longleftrightarrow>
     (use_attention self
        \<longrightarrow> length listener_outputs = batch_size \<and> (\<forall>enc\<in>set listener_outputs. enc \<noteq> []))"

text \<open>
  What is known of \<open>topk(1)\<close> on a non-empty score vector: the index it returns is an
  index of the vector, and the vector has its maximum there.
\<close>

definition picks_maximum :: "(real list \<Rightarrow> nat) \<Rightarrow> bool" where
  "picks_maximum topk \<longleftrightarrow> (\<forall>d. d \<noteq> [] \<longrightarrow> topk d < length d \<and> d ! topk d = Max (set d))"

text \<open>The hidden state and the coin that \<open>forward\<close> draws from the random sources.\<close>

abbreviation drawn_hidden :: "'v speller \<Rightarrow> nat \<Rightarrow> rand_state \<Rightarrow> real list list list" where
  "drawn_hidden self batch_size rs \<equiv>
     fst (uniform (layer_size self) batch_size (hidden_size self) (- 0.1) 0.1 (torch_random rs))"

abbreviation drawn_coin :: "rand_state \<Rightarrow> real" where
  "drawn_coin rs \<equiv> fst (random_random (py_random rs))"

text \<open>
  The step outputs \<open>s # ss\<close> form a greedy run from \<open>input\<close>: the step on \<open>input\<close> returns
  \<open>s\<close>, no distribution of which is empty, and the rest is a greedy run from the indices
  that \<open>topk(1)\<close> returns on the distributions of \<open>s\<close>.
\<close>

fun greedy_chain ::
  "(real list \<Rightarrow> nat) \<Rightarrow> 'v speller \<Rightarrow> real list list list \<Rightarrow> 'v list list
   \<Rightarrow> (real list \<Rightarrow> real list) \<Rightarrow> nat list list \<Rightarrow> real list list list \<Rightarrow> bool" where
  "greedy_chain topk self h lo f input [] = True"
| "greedy_chain topk self h lo f input (s # ss) =
     (forward_step self input h lo f = Inr (map (\<lambda>d. [d]) s)
      \<and> list_all (\<lambda>d. d \<noteq> []) s
      \<and> greedy_chain topk self h lo f (map (\<lambda>d. [topk d]) s) ss)"



section \<open>A small decoder\<close>

text \<open>
  A decoder over three tokens, with SOS \<open>0\<close> and EOS \<open>1\<close>, on which the definitions
  are evaluated.  A vector is a token id: the embedding, the dropout and the recurrent
  module are identities, and the linear layer scores token \<open>1\<close> after \<open>0\<close>, token \<open>2\<close>
  after \<open>1\<close> and token \<open>0\<close> after \<open>2\<close>.
\<close>

definition nn0 :: "nat torch_nn" where
  "nn0 = \<lparr>nn_rnn = (\<lambda>kind i h l p. Inr (\<lambda>xs hid. Inr xs)),
          nn_Embedding = (\<lambda>n h. Inr (\<lambda>t. t)),
          nn_Dropout = (\<lambda>p. Inr (\<lambda>v. v)),
          nn_Linear = (\<lambda>h n. Inr (\<lambda>v. if v = 0 then [0, 1, 0] else if v = 1 then [0, 0, 1]
                                       else [1, 0, 0])),
          nn_Attention = (\<lambda>h. Inr (\<lambda>q enc. if enc = [] then Inl InputError else Inr q))\<rparr>"

definition speller0 :: "nat speller" where
  "speller0 =
     \<lparr>rnn_cell = GRU, rnn = (\<lambda>xs hid. Inr xs), output_size = 3, max_len = 5,
      use_attention = False, eos_id = 1, sos_id = 0, hidden_size = 2, embedding = (\<lambda>t. t),
      layer_size = 1, input_dropout = (\<lambda>v. v), k_beam = 1, attention = None,
      out = (\<lambda>v. if v = 0 then [0, 1, 0] else if v = 1 then [0, 0, 1] else [1, 0, 0])\<rparr>"

definition rs0 :: rand_state where
  "rs0 = \<lparr>py_random = \<lparr>gen_draws = (\<lambda>_. 1 / 2), gen_pos = 0\<rparr>,
          torch_random = \<lparr>gen_draws = (\<lambda>_. 1 / 2), gen_pos = 0\<rparr>\<rparr>"

text \<open>The same decoder with an attention module, as the spec describes it.\<close>

definition attentive0 :: "nat speller" where
  "attentive0 =
     speller0\<lparr>use_attention := True,
              attention := Some (Attention_forward (\<lambda>q e. 0) (\<lambda>ws. 0))\<rparr>"

text \<open>
  A decoder over four tokens, with EOS \<open>2\<close>, whose first distribution has its maximum
  twice: the linear layer scores the tokens \<open>0\<close> and \<open>3\<close> alike after \<open>0\<close>, token \<open>2\<close>
  after \<open>3\<close> and token \<open>0\<close> after the others.  With it, a \<open>topk(1)\<close> that takes the last
  index among equal maxima, where \<open>max\<close> takes the first.
\<close>

definition speller_tie :: "nat speller" where
  "speller_tie =
     speller0\<lparr>output_size := 4, eos_id := 2,
              out := (\<lambda>v. if v = 0 then [1, 0, 0, 1] else if v = 3 then [0, 0, 1, 0]
                          else [1, 0, 0, 0])\<rparr>"

definition last_max_idx :: "real list \<Rightarrow> nat" where
  "last_max_idx d = length d - 1 - argmax_idx (rev d)"

text \<open>
  Random sources whose torch generator has produced three numbers already and whose
  \<open>n\<close>-th number is \<open>1 / (n + 2)\<close>.
\<close>

definition rs1 :: rand_state where
  "rs1 = \<lparr>py_random = \<lparr>gen_draws = (\<lambda>_. 1 / 2), gen_pos = 0\<rparr>,
          torch_random = \<lparr>gen_draws = (\<lambda>n. 1 / (real n + 2)), gen_pos = 3\<rparr>\<rparr>"

section \<open>Properties of the scorer\<close>

lemma replace_space_idem: "replace_space (replace_space s) = replace_space s"
  by (simp add: replace_space_def)

lemma Lev_distance_Nil2: "Lev_distance as [] = length as"
  by (cases as) simp_all

lemma Lev_distance_sym: "Lev_distance as bs = Lev_distance bs as"
proof (induction as bs rule: Lev_distance.induct)
  case (1 bs)
  then show ?case by (simp add: Lev_distance_Nil2)
next
  case (2 a as)
  then show ?case by simp
next
  case (3 a as b bs)
  then show ?case by (simp add: min.commute min.left_commute eq_commute)
qed

lemma edit_steps_insert_all: "edit_steps [] bs (length bs)"
  by (induction bs) (auto intro: edit_steps.intros)

lemma edit_steps_delete_all: "edit_steps as [] (length as)"
  by (induction as) (auto intro: edit_steps.intros)

lemma Lev_distance_reached: "edit_steps as bs (Lev_distance as bs)"
proof (induction as bs rule: Lev_distance.induct)
  case (1 bs)
  then show ?case by (simp add: edit_steps_insert_all)
next
  case (2 a as)
  have "edit_steps (a # as) [] (length (a # as))" by (rule edit_steps_delete_all)
  then show ?case by simp
next
  case (3 a as b bs)
  let ?d = "Lev_distance as bs + (if a = b then 0 else 1)"
  let ?e = "Lev_distance as (b # bs) + 1"
  let ?i = "Lev_distance (a # as) bs + 1"
  have d: "edit_steps (a # as) (b # bs) ?d"
    using "3.IH"(1) by (auto intro: edit_steps.intros)
  have e: "edit_steps (a # as) (b # bs) ?e"
    using "3.IH"(2) by (auto intro: edit_steps.intros)
  have i: "edit_steps (a # as) (b # bs) ?i"
    using "3.IH"(3) by (auto intro: edit_steps.intros)
  have "min ?d (min ?e ?i) = ?d \<or> min ?d (min ?e ?i) = ?e \<or> min ?d (min ?e ?i) = ?i"
    by (auto simp add: min_def)
  with d e i show ?case by (auto simp del: Lev_distance.simps simp add: Lev_distance.simps(3))
qed

lemma Lev_distance_insert: "Lev_distance as (b # bs) \<le> Suc (Lev_distance as bs)"
  by (cases as) simp_all

lemma Lev_distance_delete: "Lev_distance (a # as) bs \<le> Suc (Lev_distance as bs)"
  by (cases bs) (simp_all add: min.coboundedI2 Lev_distance_Nil2)

lemma Lev_distance_least: "edit_steps as bs n \<Longrightarrow> Lev_distance as bs \<le> n"
proof (induction rule: edit_steps.induct)
  case e_nil
  then show ?case by simp
next
  case (e_keep as bs n a)
  then show ?case by (simp add: min.coboundedI1)
next
  case (e_sub as bs n a b)
  then show ?case by (simp add: min.coboundedI1)
next
  case (e_ins as bs n b)
  with Lev_distance_insert [of as b bs] show ?case by simp
next
  case (e_del as bs n a)
  with Lev_distance_delete [of a as bs] show ?case by simp
qed

lemma id2char_join_known:
  "list_all (\<lambda>i. id2char i \<noteq> None) is
   \<Longrightarrow> id2char_join id2char is = Inr (concat (map (\<lambda>i. the (id2char i)) is))"
  by (induction "is") auto

lemma label_to_string_known:
  "known_ids id2char eos labels
   \<Longrightarrow> label_to_string labels id2char eos
       = Inr (concat (map (\<lambda>i. the (id2char i)) (takeWhile (\<lambda>i. i \<noteq> eos) labels)))"
  by (simp add: known_ids_def label_to_string_def id2char_join_known)

lemma char_distance_eq:
  "char_distance target y_hat
   = (Lev_distance (replace_space target) (replace_space y_hat), length (replace_space target))"
  by (simp add: char_distance_def Let_def replace_space_idem Lev_distance_sym)

lemma get_distance_loop_sums:
  assumes "\<forall>i\<in>set is. i < length targets \<and> i < length y_hats
             \<and> known_ids id2char eos (targets ! i) \<and> known_ids id2char eos (y_hats ! i)"
  shows "get_distance_loop is targets y_hats id2char eos (d, l)
         = Inr (d + sum_list (map (\<lambda>i. Lev_distance (stripped id2char eos (targets ! i))
                                                      (stripped id2char eos (y_hats ! i))) is),
                l + sum_list (map (\<lambda>i. length (stripped id2char eos (targets ! i))) is))"
  using assms
proof (induction "is" arbitrary: d l)
  case Nil
  then show ?case by simp
next
  case (Cons i "is")
  then show ?case
    by (simp add: label_to_string_known char_distance_eq stripped_def)
qed

lemma map_index_zip:
  "length xs \<le> length ys \<Longrightarrow> map (\<lambda>i. f (xs ! i) (ys ! i)) [0..<length xs] = map2 f xs ys"
  by (rule nth_equalityI) simp_all

lemma map_index_self: "map (\<lambda>i. f (xs ! i)) [0..<length xs] = map f xs"
  by (rule nth_equalityI) simp_all

text \<open>
  C9.  \<open>char_distance\<close> returns the edit distance between the two strings without their
  spaces and the length of the target without its spaces: the distance is the value of the
  Levenshtein recurrence, in either order of the two strings, it is reached by some run of
  edits, and no run of edits is shorter.  \<open>get_distance\<close> returns the sums of the two over
  the batch, each id sequence first turned into its string with the content at and after
  EOS stripped.  This holds when there is a prediction for every target and every id
  before EOS has a character.
\<close>

theorem scorer_sums_edit_distances:
  "char_distance target y_hat
     = (Lev_distance (replace_space target) (replace_space y_hat), length (replace_space target))
   \<and> edit_steps (replace_space target) (replace_space y_hat) (fst (char_distance target y_hat))
   \<and> (\<forall>n. edit_steps (replace_space target) (replace_space y_hat) n
           \<longrightarrow> fst (char_distance target y_hat) \<le> n)
   \<and> (length targets \<le> length y_hats
        \<and> list_all (known_ids id2char eos) targets
        \<and> list_all (known_ids id2char eos) (take (length targets) y_hats)
      \<longrightarrow> get_distance targets y_hats id2char eos
          = Inr (sum_list (map2 (\<lambda>t y. Lev_distance (stripped id2char eos t)
                                                      (stripped id2char eos y)) targets y_hats),
                 sum_list (map (\<lambda>t. length (stripped id2char eos t)) targets)))"
proof (intro conjI impI allI)
  show "char_distance target y_hat
     = (Lev_distance (replace_space target) (replace_space y_hat), length (replace_space target))"
    by (rule char_distance_eq)
next
  show "edit_steps (replace_space target) (replace_space y_hat) (fst (char_distance target y_hat))"
    by (simp add: char_distance_eq Lev_distance_reached)
next
  fix n
  assume "edit_steps (replace_space target) (replace_space y_hat) n"
  then show "fst (char_distance target y_hat) \<le> n"
    by (simp add: char_distance_eq Lev_distance_least)
next
  assume a: "length targets \<le> length y_hats
        \<and> list_all (known_ids id2char eos) targets
        \<and> list_all (known_ids id2char eos) (take (length targets) y_hats)"
  have "\<forall>i\<in>set [0..<length targets]. i < length targets \<and> i < length y_hats
             \<and> known_ids id2char eos (targets ! i) \<and> known_ids id2char eos (y_hats ! i)"
  proof
    fix i assume "i \<in> set [0..<length targets]"
    then have i: "i < length targets" by simp
    with a have "known_ids id2char eos (targets ! i)"
      by (simp add: list_all_length)
    moreover from a i have "known_ids id2char eos (take (length targets) y_hats ! i)"
      by (simp add: list_all_length)
    ultimately show "i < length targets \<and> i < length y_hats
             \<and> known_ids id2char eos (targets ! i) \<and> known_ids id2char eos (y_hats ! i)"
      using a i by simp
  qed
  moreover have "map (\<lambda>i. Lev_distance (stripped id2char eos (targets ! i))
                               (stripped id2char eos (y_hats ! i))) [0..<length targets]
        = map2 (\<lambda>t y. Lev_distance (stripped id2char eos t) (stripped id2char eos y))
            targets y_hats"
    using a by (intro map_index_zip) simp
  moreover have "map (\<lambda>i. length (stripped id2char eos (targets ! i))) [0..<length targets]
        = map (\<lambda>t. length (stripped id2char eos t)) targets"
    by (rule map_index_self)
  ultimately show "get_distance targets y_hats id2char eos
          = Inr (sum_list (map2 (\<lambda>t y. Lev_distance (stripped id2char eos t)
                                                      (stripped id2char eos y)) targets y_hats),
                 sum_list (map (\<lambda>t. length (stripped id2char eos t)) targets))"
    by (simp add: get_distance_def get_distance_loop_sums)
qed

theorem scorer_sums_edit_distances_witness:
  "char_distance [44032, 32, 45208, 32, 45796] [44032, 45208, 32, 46972, 32, 47560] = (2, 3)
   \<and> get_distance [[2, 3, 1, 4], [3, 1]] [[2, 1], [3, 3, 3, 1]]
        [2 \<mapsto> [44032], 3 \<mapsto> [32, 45208], 4 \<mapsto> [45796]] 1 = Inr (3, 3)"
  using scorer_sums_edit_distances [where target = "[44032, 32, 45208, 32, 45796]"
          and y_hat = "[44032, 45208, 32, 46972, 32, 47560]"
          and targets = "[[2, 3, 1, 4], [3, 1]]" and y_hats = "[[2, 1], [3, 3, 3, 1]]"
          and id2char = "[2 \<mapsto> [44032], 3 \<mapsto> [32, 45208], 4 \<mapsto> [45796]]" and eos = 1]
  by (simp add: known_ids_def stripped_def replace_space_def)

section \<open>Construction\<close>

lemma lower_GrU: "lower ''GrU'' = ''gru''"
  by code_simp

lemma lower_cnn: "lower ''cnn'' = ''cnn''"
  by code_simp

text \<open>
  C7.  A cell kind that is, in lower case, none of \<open>lstm\<close>, \<open>gru\<close> and \<open>rnn\<close> makes the
  constructor raise, whatever the other arguments: no decoder exists that could be called.
  For each of the three kinds, in any mix of cases, the assertion passes and the decoder
  is built with the recurrent module of that kind, provided torch builds the modules.
\<close>

theorem Speller_init_checks_cell_kind:
  "(lower s \<noteq> ''lstm'' \<and> lower s \<noteq> ''gru'' \<and> lower s \<noteq> ''rnn''
      \<longrightarrow> Speller_init nn V M H sos eos L s p ua k = Inl AssertionError)
   \<and> ((lower s = ''lstm'' \<and> kind = LSTM \<or> lower s = ''gru'' \<and> kind = GRU
         \<or> lower s = ''rnn'' \<and> kind = RNN)
        \<and> nn_rnn nn kind H H L p = Inr r \<and> nn_Embedding nn V H = Inr e
        \<and> nn_Dropout nn p = Inr d \<and> nn_Linear nn H V = Inr lin
        \<and> (ua \<longrightarrow> nn_Attention nn H = Inr a)
      \<longrightarrow> Speller_init nn V M H sos eos L s p ua k
          = Inr \<lparr>rnn_cell = kind, rnn = r, output_size = V, max_len = M, use_attention = ua,
                 eos_id = eos, sos_id = sos, hidden_size = H, embedding = e, layer_size = L,
                 input_dropout = d, k_beam = k, attention = (if ua then Some a else None),
                 out = lin\<rparr>)"
  by (auto simp add: Speller_init_def)

theorem Speller_init_checks_cell_kind_witness:
  "Speller_init nn0 3 5 2 0 1 1 ''cnn'' 0 False 8 = Inl AssertionError
   \<and> map_sum id rnn_cell (Speller_init nn0 3 5 2 0 1 1 ''GrU'' 0 False 8) = Inr GRU"
  using Speller_init_checks_cell_kind [where s = "''cnn''" and nn = nn0 and V = 3 and M = 5
       and H = 2 and sos = 0 and eos = 1 and L = 1 and p = 0 and ua = False and k = 8]
    Speller_init_checks_cell_kind [where s = "''GrU''" and nn = nn0 and V = 3 and M = 5
       and H = 2 and sos = 0 and eos = 1 and L = 1 and p = 0 and ua = False and k = 8
       and kind = GRU and r = "\<lambda>xs hid. Inr xs" and e = "\<lambda>t. t" and d = "\<lambda>v. v"
       and lin = "\<lambda>v. if v = 0 then [0, 1, 0] else if v = 1 then [0, 0, 1] else [1, 0, 0]"]
  by (simp add: lower_GrU lower_cnn nn0_def)

section \<open>Maxima, collected results and views\<close>

lemma fold_max_Max: "fold max xs (x::real) = Max (insert x (set xs))"
proof (induction xs arbitrary: x)
  case Nil
  then show ?case by simp
next
  case (Cons y ys)
  have "Max (insert (max y x) (set ys)) = Max (insert x (insert y (set ys)))"
    by (cases "set ys = {}") (auto simp add: max.commute max.left_commute max.assoc)
  with Cons show ?case by simp
qed

lemma list_max_Max: "xs \<noteq> [] \<Longrightarrow> list_max xs = Max (set xs)"
  by (cases xs) (simp_all add: fold_max_Max)

lemma argmax_idx_less: "xs \<noteq> [] \<Longrightarrow> argmax_idx xs < length xs"
proof -
  assume ne: "xs \<noteq> []"
  then have "Max (set xs) \<in> set xs" by simp
  then have "\<exists>x\<in>set xs. \<not> x < list_max xs"
    using ne by (auto simp add: list_max_Max)
  then have "dropWhile (\<lambda>x. x < list_max xs) xs \<noteq> []"
    by (simp add: dropWhile_eq_Nil_conv)
  then have "length (dropWhile (\<lambda>x. x < list_max xs) xs) > 0" by simp
  moreover have "length (takeWhile (\<lambda>x. x < list_max xs) xs)
                 + length (dropWhile (\<lambda>x. x < list_max xs) xs) = length xs"
    by (simp flip: length_append)
  ultimately have "length (takeWhile (\<lambda>x. x < list_max xs) xs) < length xs"
    by linarith
  then show ?thesis by (simp add: argmax_idx_def)
qed

lemma argmax_idx_Max: "xs \<noteq> [] \<Longrightarrow> xs ! argmax_idx xs = Max (set xs)"
proof -
  assume ne: "xs \<noteq> []"
  let ?i = "argmax_idx xs"
  have i: "?i < length xs" using ne by (rule argmax_idx_less)
  then have "\<not> xs ! ?i < list_max xs"
    unfolding argmax_idx_def by (rule nth_length_takeWhile)
  moreover have "list_max xs = Max (set xs)" using ne by (rule list_max_Max)
  ultimately have "\<not> xs ! ?i < Max (set xs)" by metis
  moreover have "xs ! ?i \<le> Max (set xs)" using i by simp
  ultimately show ?thesis by linarith
qed


lemma picks_maximum_D:
  assumes "picks_maximum topk" and "d \<noteq> []"
  shows "topk d < length d" and "d ! topk d = Max (set d)"
  using assms by (simp_all add: picks_maximum_def)

lemma picks_maximum_argmax_idx: "picks_maximum argmax_idx"
  by (simp add: picks_maximum_def argmax_idx_less argmax_idx_Max)

lemma picks_maximum_last_max_idx: "picks_maximum last_max_idx"
  unfolding picks_maximum_def
proof (intro allI impI)
  fix d :: "real list"
  assume ne: "d \<noteq> []"
  let ?a = "argmax_idx (rev d)"
  from ne have r: "rev d \<noteq> []" by simp
  from argmax_idx_less [OF r] have a: "?a < length d" by simp
  then have i: "last_max_idx d < length d" by (simp add: last_max_idx_def)
  from a have "rev d ! ?a = d ! (length d - Suc ?a)" by (rule rev_nth)
  moreover have "length d - Suc ?a = last_max_idx d" by (simp add: last_max_idx_def)
  moreover from argmax_idx_Max [OF r] have "rev d ! ?a = Max (set d)" by simp
  ultimately have "d ! last_max_idx d = Max (set d)" by simp
  with i show "last_max_idx d < length d \<and> d ! last_max_idx d = Max (set d)" by simp
qed

lemma concat_map_upt_blocks:
  "concat (map (\<lambda>i. map (\<lambda>j. g (i * m + j)) [0..<m]) [0..<n]) = map g [0..<n * m]"
proof (induction n)
  case 0
  then show ?case by simp
next
  case (Suc n)
  have "map (\<lambda>j. g (n * m + j)) [0..<m] = map g (map (\<lambda>j. j + n * m) [0..<m])"
    by (simp add: add.commute)
  also have "\<dots> = map g [n * m..<n * m + m]"
    by (simp only: map_add_upt add.commute)
  finally have "map (\<lambda>j. g (n * m + j)) [0..<m] = map g [n * m..<n * m + m]" .
  with Suc have "concat (map (\<lambda>i. map (\<lambda>j. g (i * m + j)) [0..<m]) [0..<Suc n])
                 = map g [0..<n * m] @ map g [n * m..<n * m + m]"
    by simp
  also have "\<dots> = map g ([0..<n * m] @ [n * m..<n * m + m])" by simp
  also have "[0..<n * m] @ [n * m..<n * m + m] = [0..<n * m + m]"
    by (simp flip: upt_add_eq_append)
  finally show ?case by (simp add: add.commute)
qed

lemma collect_map_Inr_id: "collect (map Inr ys) = Inr ys"
  by (induction ys) simp_all

lemma collect_Inr_D: "collect rs = Inr ys \<Longrightarrow> rs = map Inr ys"
proof (induction rs arbitrary: ys)
  case Nil
  then show ?case by simp
next
  case (Cons r rs)
  from Cons.prems obtain x xs where r: "r = Inr x" and xs: "collect rs = Inr xs"
    and ys: "ys = x # xs"
    by (auto split: sum.splits)
  from Cons.IH [OF xs] r ys show ?case by simp
qed

lemma collect_eq_Inr: "collect rs = Inr ys \<longleftrightarrow> rs = map Inr ys"
  using collect_Inr_D collect_map_Inr_id by blast

lemma collect_upt_Inr:
  "collect (map g [0..<n]) = Inr ys \<longleftrightarrow> length ys = n \<and> (\<forall>i<n. g i = Inr (ys ! i))"
proof -
  have "map g [0..<n] = map Inr ys \<longleftrightarrow> length ys = n \<and> (\<forall>i<n. g i = Inr (ys ! i))"
    by (auto simp add: list_eq_iff_nth_eq)
  then show ?thesis by (simp add: collect_eq_Inr)
qed

lemma collect_map_list_Inr:
  "collect (map g xs) = Inr ys \<longleftrightarrow> length ys = length xs \<and> (\<forall>i<length xs. g (xs ! i) = Inr (ys ! i))"
proof -
  have "map g xs = map Inr ys \<longleftrightarrow> length ys = length xs \<and> (\<forall>i<length xs. g (xs ! i) = Inr (ys ! i))"
    by (auto simp add: list_eq_iff_nth_eq)
  then show ?thesis by (simp add: collect_eq_Inr)
qed

lemma take_drop_concat:
  assumes "\<forall>d\<in>set ds. length d = n" and "i < length ds"
  shows "take n (drop (i * n) (concat ds)) = ds ! i"
  using assms
proof (induction ds arbitrary: i)
  case Nil
  then show ?case by simp
next
  case (Cons d ds)
  show ?case
  proof (cases i)
    case 0
    with Cons.prems show ?thesis by simp
  next
    case (Suc j)
    with Cons.prems have "take n (drop (j * n) (concat ds)) = ds ! j"
      by (intro Cons.IH) simp_all
    with Suc Cons.prems show ?thesis by simp
  qed
qed

lemma length_concat_same:
  "\<forall>d\<in>set ds. length d = n \<Longrightarrow> length (concat ds) = length ds * n"
  by (induction ds) simp_all

lemma view_row_same:
  assumes "\<forall>d\<in>set ds. length d = n" and "length ds = l" and "0 < l"
  shows "view_row l ds = Inr ds"
proof -
  have "length (concat ds) = length ds * n"
    using assms(1) by (rule length_concat_same)
  then have len: "length (concat ds) = l * n"
    using assms(2) by simp
  have "map (\<lambda>i. take n (drop (i * n) (concat ds))) [0..<l] = ds"
    using assms by (intro nth_equalityI) (simp_all add: take_drop_concat)
  with len assms show ?thesis
    by (simp add: view_row_def Let_def)
qed

lemma view_row_length: "view_row l ds = Inr ps \<Longrightarrow> length ps = l"
  by (auto simp add: view_row_def Let_def split: if_splits)

lemma size1_width:
  "input \<noteq> [] \<Longrightarrow> \<forall>row\<in>set input. length row = l \<Longrightarrow> size1 input = l"
  by (cases input) (simp_all add: size1_def)

lemma map_by_index: "length xs = n \<Longrightarrow> map g xs = map (\<lambda>b. g (xs ! b)) [0..<n]"
  by (rule nth_equalityI) simp_all

lemma stack_dim1_Inr_D:
  assumes "stack_dim1 rs = Inr logit"
  shows "rs \<noteq> []" and "length logit = length (hd rs)"
    and "b < length logit \<Longrightarrow> logit ! b = map (\<lambda>r. r ! b) rs"
  using assms by (auto simp add: stack_dim1_def split: list.splits)

lemma stack_unstack:
  assumes "ps \<noteq> []" and "\<forall>p\<in>set ps. length p = n" and "0 < n"
  shows "stack_dim1 (map (\<lambda>di. map (\<lambda>row. row ! di) ps) [0..<n]) = Inr ps"
proof -
  from assms(3) have "[0..<n] = 0 # [1..<n]" by (simp add: upt_conv_Cons)
  then have "stack_dim1 (map (\<lambda>di. map (\<lambda>row. row ! di) ps) [0..<n])
       = Inr (map (\<lambda>b. map (\<lambda>r'. r' ! b) (map (\<lambda>di. map (\<lambda>row. row ! di) ps) [0..<n]))
                [0..<length ps])"
    by (simp add: stack_dim1_def)
  moreover have "map (\<lambda>b. map (\<lambda>r'. r' ! b) (map (\<lambda>di. map (\<lambda>row. row ! di) ps) [0..<n]))
                [0..<length ps] = ps"
  proof (rule nth_equalityI)
    show "length (map (\<lambda>b. map (\<lambda>r'. r' ! b) (map (\<lambda>di. map (\<lambda>row. row ! di) ps) [0..<n]))
                [0..<length ps]) = length ps"
      by simp
  next
    fix b
    assume "b < length (map (\<lambda>b. map (\<lambda>r'. r' ! b) (map (\<lambda>di. map (\<lambda>row. row ! di) ps) [0..<n]))
                [0..<length ps])"
    then have b: "b < length ps" by simp
    with assms(2) have lb: "length (ps ! b) = n" by simp
    have "map (\<lambda>r'. r' ! b) (map (\<lambda>di. map (\<lambda>row. row ! di) ps) [0..<n])
          = map (\<lambda>di. ps ! b ! di) [0..<n]"
      using b by simp
    also have "\<dots> = ps ! b"
      using lb by (intro nth_equalityI) simp_all
    finally show "map (\<lambda>b. map (\<lambda>r'. r' ! b) (map (\<lambda>di. map (\<lambda>row. row ! di) ps) [0..<n]))
                [0..<length ps] ! b = ps ! b"
      using b by simp
  qed
  ultimately show ?thesis by simp
qed

lemma decode_output_Inr_D:
  assumes "decode_output rs = Inr (y_hats, lg)"
  shows "\<exists>logit. lg = Some logit \<and> stack_dim1 rs = Inr logit
           \<and> y_hats = map (map argmax_idx) logit \<and> (\<forall>p\<in>set logit. \<forall>d\<in>set p. d \<noteq> [])"
  using assms
  by (auto simp add: decode_output_def max_last_def list_ex_iff split: sum.splits if_splits)

lemma decode_output_ok:
  assumes "stack_dim1 rs = Inr logit" and "\<forall>p\<in>set logit. \<forall>d\<in>set p. d \<noteq> []"
  shows "decode_output rs = Inr (map (map argmax_idx) logit, Some logit)"
  using assms by (auto simp add: decode_output_def max_last_def list_ex_iff)

lemma topk1_Inr_D:
  assumes "topk1 topk t = Inr idx"
  shows "idx = map (\<lambda>d. [topk d]) t" and "list_all (\<lambda>d. d \<noteq> []) t"
  using assms by (auto simp add: topk1_def list_ex_iff list_all_iff split: if_splits)

section \<open>One decoding step\<close>

text \<open>A step on a batch succeeds exactly when it succeeds on every batch element.\<close>

lemma forward_step_Inr_D:
  assumes "forward_step self input h lo f = Inr ps"
  shows "input \<noteq> []" and "\<forall>layer\<in>set h. length layer = length input"
    and "length ps = length input"
    and "b < length input \<Longrightarrow>
           forward_step_row self (size1 input) (input ! b) (map (\<lambda>layer. layer ! b) h)
             (if use_attention self then lo ! b else []) f = Inr (ps ! b)"
proof -
  let ?B = "length input"
  let ?E = "map (map (input_dropout self)) (map (map (embedding self)) input)"
  from assms have tok: "\<not> list_ex (list_ex (\<lambda>token. output_size self \<le> token)) input"
    by (auto simp add: forward_step_def Let_def split: if_splits)
  from assms have hid: "\<not> list_ex (\<lambda>layer. length layer \<noteq> ?B) h"
    by (auto simp add: forward_step_def Let_def split: if_splits)
  then show "\<forall>layer\<in>set h. length layer = length input"
    by (simp add: list_ex_iff)
  from assms tok hid obtain so where
    so: "collect (map (\<lambda>b. rnn self (?E ! b) (map (\<lambda>layer. layer ! b) h)) [0..<?B]) = Inr so"
    by (auto simp add: forward_step_def Let_def split: if_splits sum.splits)
  from assms tok hid so obtain ctx where
    ctx: "(if use_attention self then
            (case attention self of
               None \<Rightarrow> Inl AttributeError
             | Some attention' \<Rightarrow>
                if length lo \<noteq> ?B then Inl InputError
                else collect (map (\<lambda>b. attention' (so ! b) (lo ! b)) [0..<?B]))
           else Inr so) = Inr ctx"
    by (auto simp add: forward_step_def Let_def split: if_splits sum.splits)
  from assms tok hid so ctx have ne: "?B \<noteq> 0"
    and ps: "collect (map (\<lambda>c. view_row (size1 input) (map (\<lambda>v. f (out self v)) c)) ctx) = Inr ps"
    by (auto simp add: forward_step_def Let_def split: if_splits)
  from ne show "input \<noteq> []" by simp
  from so have lso: "length so = ?B" by (simp add: collect_upt_Inr)
  have lctx: "length ctx = ?B"
    using ctx lso by (auto simp add: collect_upt_Inr split: if_splits option.splits)
  from ps lctx show "length ps = length input" by (simp add: collect_map_list_Inr)
  assume b: "b < length input"
  from tok b have tokb: "\<not> list_ex (\<lambda>token. output_size self \<le> token) (input ! b)"
    by (auto simp add: list_ex_iff)
  from so b have sob: "rnn self (map (input_dropout self) (map (embedding self) (input ! b)))
      (map (\<lambda>layer. layer ! b) h) = Inr (so ! b)"
    by (simp add: collect_upt_Inr)
  from ctx b have ctxb: "(if use_attention self then
                  (case attention self of
                     None \<Rightarrow> Inl AttributeError
                   | Some attention' \<Rightarrow> attention' (so ! b) (lo ! b))
                else Inr (so ! b)) = Inr (ctx ! b)"
    by (auto simp add: collect_upt_Inr split: if_splits option.splits)
  from ps b lctx have psb: "view_row (size1 input) (map (\<lambda>v. f (out self v)) (ctx ! b)) = Inr (ps ! b)"
    by (simp add: collect_map_list_Inr)
  show "forward_step_row self (size1 input) (input ! b) (map (\<lambda>layer. layer ! b) h)
             (if use_attention self then lo ! b else []) f = Inr (ps ! b)"
    unfolding forward_step_row_def using tokb sob ctxb psb
    by (auto split: if_splits option.splits)
qed

lemma forward_step_row_Inr_D:
  assumes "forward_step_row self l tokens hid enc f = Inr p"
  shows "\<not> list_ex (\<lambda>token. output_size self \<le> token) tokens"
    and "\<exists>so ctx. rnn self (map (input_dropout self) (map (embedding self) tokens)) hid = Inr so
           \<and> (if use_attention self then
                 (\<exists>att. attention self = Some att \<and> att so enc = Inr ctx)
               else ctx = so)
           \<and> view_row l (map (\<lambda>v. f (out self v)) ctx) = Inr p"
  using assms
  by (auto simp add: forward_step_row_def split: if_splits sum.splits option.splits)

lemma forward_step_Inr_I:
  assumes ne: "input \<noteq> []"
    and hid: "\<forall>layer\<in>set h. length layer = length input"
    and lo: "use_attention self \<longrightarrow> length lo = length input"
    and len: "length ps = length input"
    and rows: "\<forall>b<length input.
           forward_step_row self (size1 input) (input ! b) (map (\<lambda>layer. layer ! b) h)
             (if use_attention self then lo ! b else []) f = Inr (ps ! b)"
  shows "forward_step self input h lo f = Inr ps"
proof -
  let ?B = "length input"
  let ?E = "map (map (input_dropout self)) (map (map (embedding self)) input)"
  let ?R = "\<lambda>b. rnn self (?E ! b) (map (\<lambda>layer. layer ! b) h)"
  let ?so = "map (\<lambda>b. projr (?R b)) [0..<?B]"
  have tok: "\<not> list_ex (list_ex (\<lambda>token. output_size self \<le> token)) input"
  proof
    assume "list_ex (list_ex (\<lambda>token. output_size self \<le> token)) input"
    then obtain row where "row \<in> set input"
      and r: "list_ex (\<lambda>token. output_size self \<le> token) row"
      unfolding list_ex_iff [of _ input] by blast
    then obtain b where b: "b < ?B" and "input ! b = row"
      by (auto simp add: in_set_conv_nth)
    with r have "list_ex (\<lambda>token. output_size self \<le> token) (input ! b)" by simp
    moreover from rows b have "\<not> list_ex (\<lambda>token. output_size self \<le> token) (input ! b)"
      by (intro forward_step_row_Inr_D(1)) auto
    ultimately show False using b by simp
  qed
  have hid': "\<not> list_ex (\<lambda>layer. length layer \<noteq> ?B) h"
    using hid by (simp add: list_ex_iff)
  have row: "\<exists>so ctx. ?R b = Inr so
           \<and> (if use_attention self then
                 (\<exists>att. attention self = Some att \<and> att so (lo ! b) = Inr ctx)
               else ctx = so)
           \<and> view_row (size1 input) (map (\<lambda>v. f (out self v)) ctx) = Inr (ps ! b)"
    if "b < ?B" for b
    using forward_step_row_Inr_D(2) [of self "size1 input" "input ! b"
        "map (\<lambda>layer. layer ! b) h" "if use_attention self then lo ! b else []" f "ps ! b"]
      rows that
    by (auto split: if_splits)
  have so: "collect (map ?R [0..<?B]) = Inr ?so"
    using row by (fastforce simp add: collect_upt_Inr)
  show ?thesis
  proof (cases "use_attention self")
    case False
    have "collect (map (\<lambda>c. view_row (size1 input) (map (\<lambda>v. f (out self v)) c)) ?so) = Inr ps"
      using row False len by (fastforce simp add: collect_map_list_Inr)
    with tok hid' so False ne show ?thesis
      by (simp add: forward_step_def Let_def)
  next
    case True
    from row [of 0] ne True obtain att where att: "attention self = Some att"
      by auto
    let ?ctx = "map (\<lambda>b. projr (att (?so ! b) (lo ! b))) [0..<?B]"
    have ctx: "collect (map (\<lambda>b. att (?so ! b) (lo ! b)) [0..<?B]) = Inr ?ctx"
      using row True att by (fastforce simp add: collect_upt_Inr)
    have "collect (map (\<lambda>c. view_row (size1 input) (map (\<lambda>v. f (out self v)) c)) ?ctx) = Inr ps"
      using row True att len by (fastforce simp add: collect_map_list_Inr)
    with tok hid' so True ne att ctx lo show ?thesis
      by (simp add: forward_step_def Let_def)
  qed
qed


lemma forward_step_row_ok:
  assumes m: "modules_ok self f" and ne: "tokens \<noteq> []"
    and tok: "\<forall>t\<in>set tokens. t < output_size self"
    and hid: "length hid = layer_size self"
    and hw: "\<forall>row\<in>set hid. length row = hidden_size self"
    and enc: "use_attention self \<longrightarrow> enc \<noteq> []"
  shows "\<exists>p. forward_step_row self (length tokens) tokens hid enc f = Inr p
            \<and> length p = length tokens \<and> (\<forall>d\<in>set p. length d = output_size self)"
proof -
  let ?E = "map (input_dropout self) (map (embedding self) tokens)"
  from tok have t: "\<not> list_ex (\<lambda>token. output_size self \<le> token) tokens"
    by (auto simp add: list_ex_iff)
  from ne have "?E \<noteq> []" by simp
  with m hid hw have "\<exists>ys. rnn self ?E hid = Inr ys \<and> length ys = length ?E"
    unfolding modules_ok_def by blast
  then obtain so where so: "rnn self ?E hid = Inr so" and lso: "length so = length tokens"
    by auto
  have "\<exists>ctx. (if use_attention self then
                  (case attention self of
                     None \<Rightarrow> Inl AttributeError
                   | Some attention' \<Rightarrow> attention' so enc)
                else Inr so) = Inr ctx \<and> length ctx = length tokens"
  proof (cases "use_attention self")
    case False
    with lso show ?thesis by simp
  next
    case True
    with m obtain att where att: "attention self = Some att"
      and ok: "\<forall>q enc. enc \<noteq> [] \<longrightarrow> (\<exists>c. att q enc = Inr c \<and> length c = length q)"
      unfolding modules_ok_def by blast
    from ok enc True obtain c where "att so enc = Inr c" and "length c = length so"
      by blast
    with True att lso show ?thesis by simp
  qed
  then obtain ctx where ctx: "(if use_attention self then
                  (case attention self of
                     None \<Rightarrow> Inl AttributeError
                   | Some attention' \<Rightarrow> attention' so enc)
                else Inr so) = Inr ctx" and lctx: "length ctx = length tokens"
    by blast
  let ?ds = "map (\<lambda>v. f (out self v)) ctx"
  from m have "\<forall>d\<in>set ?ds. length d = output_size self"
    by (simp add: modules_ok_def)
  moreover have "length ?ds = length tokens" using lctx by simp
  moreover have "0 < length tokens" using ne by simp
  ultimately have v: "view_row (length tokens) ?ds = Inr ?ds"
    by (rule view_row_same)
  have "forward_step_row self (length tokens) tokens hid enc f = Inr ?ds"
    unfolding forward_step_row_def using t so ctx v by simp
  moreover have "length ?ds = length tokens" using lctx by simp
  moreover from m have "\<forall>d\<in>set ?ds. length d = output_size self"
    by (simp add: modules_ok_def)
  ultimately show ?thesis by blast
qed

lemma forward_step_ok:
  assumes m: "modules_ok self f" and ne: "input \<noteq> []"
    and rect: "\<forall>row\<in>set input. length row = l" and l: "0 < l"
    and tok: "\<forall>row\<in>set input. \<forall>t\<in>set row. t < output_size self"
    and hl: "length h = layer_size self"
    and hid: "\<forall>layer\<in>set h. length layer = length input"
    and hw: "\<forall>layer\<in>set h. \<forall>row\<in>set layer. length row = hidden_size self"
    and lo: "listener_ok self lo (length input)"
  shows "\<exists>ps. forward_step self input h lo f = Inr ps \<and> length ps = length input
            \<and> (\<forall>p\<in>set ps. length p = l \<and> (\<forall>d\<in>set p. length d = output_size self))"
proof -
  let ?B = "length input"
  let ?row = "\<lambda>b. forward_step_row self (size1 input) (input ! b) (map (\<lambda>layer. layer ! b) h)
             (if use_attention self then lo ! b else []) f"
  from ne rect have s1: "size1 input = l"
    by (cases input) (simp_all add: size1_def)
  have row: "\<exists>p. ?row b = Inr p \<and> length p = l \<and> (\<forall>d\<in>set p. length d = output_size self)"
    if b: "b < ?B" for b
  proof -
    from b rect have lb: "length (input ! b) = l" by simp
    with l have "input ! b \<noteq> []" by auto
    moreover from b have "input ! b \<in> set input" by simp
    with tok have "\<forall>t\<in>set (input ! b). t < output_size self" by blast
    moreover from hl have "length (map (\<lambda>layer. layer ! b) h) = layer_size self" by simp
    moreover have "\<forall>row\<in>set (map (\<lambda>layer. layer ! b) h). length row = hidden_size self"
    proof
      fix row assume "row \<in> set (map (\<lambda>layer. layer ! b) h)"
      then obtain layer where layer: "layer \<in> set h" and row: "row = layer ! b" by auto
      from layer hid b have "b < length layer" by simp
      then have "layer ! b \<in> set layer" by simp
      with hw layer row show "length row = hidden_size self" by blast
    qed
    moreover from lo b have "use_attention self \<longrightarrow> (if use_attention self then lo ! b else []) \<noteq> []"
      by (auto simp add: listener_ok_def)
    ultimately show ?thesis
      using forward_step_row_ok [OF m, of "input ! b" "map (\<lambda>layer. layer ! b) h"
          "if use_attention self then lo ! b else []"] lb s1
      by simp
  qed
  let ?ps = "map (\<lambda>b. projr (?row b)) [0..<?B]"
  have "forward_step self input h lo f = Inr ?ps"
  proof (rule forward_step_Inr_I [OF ne hid])
    show "use_attention self \<longrightarrow> length lo = length input"
      using lo by (simp add: listener_ok_def)
    show "length ?ps = length input" by simp
    show "\<forall>b<length input. ?row b = Inr (?ps ! b)"
      using row by fastforce
  qed
  moreover have "length ?ps = ?B" by simp
  moreover have "\<forall>p\<in>set ?ps. length p = l \<and> (\<forall>d\<in>set p. length d = output_size self)"
    using row by fastforce
  ultimately show ?thesis by blast
qed

lemma forward_step_single:
  assumes st: "forward_step self input h lo f = Inr ps"
    and w: "\<forall>row\<in>set input. length row = 1"
  shows "ps = map (\<lambda>d. [d]) (map concat ps)"
proof -
  from st have ne: "input \<noteq> []" by (rule forward_step_Inr_D)
  from ne w have s1: "size1 input = 1" by (rule size1_width)
  from st have len: "length ps = length input" by (rule forward_step_Inr_D)
  have "ps ! b = [concat (ps ! b)]" if b: "b < length ps" for b
  proof -
    from b len have "b < length input" by simp
    from forward_step_Inr_D(4) [OF st this] s1
    have "forward_step_row self 1 (input ! b) (map (\<lambda>layer. layer ! b) h)
             (if use_attention self then lo ! b else []) f = Inr (ps ! b)"
      by simp
    from forward_step_row_Inr_D(2) [OF this] have "length (ps ! b) = 1"
      by (auto dest: view_row_length)
    then obtain d where "ps ! b = [d]"
      by (cases "ps ! b") simp_all
    then show ?thesis by simp
  qed
  then show ?thesis
    by (intro nth_equalityI) simp_all
qed


lemma speller0_fields:
  "max_len speller0 = 5" "k_beam speller0 = 1" "eos_id speller0 = 1"
  "\<not> use_attention speller0" "output_size speller0 = 3"
  by (simp_all add: speller0_def)

lemma speller0_modules_ok: "modules_ok speller0 id"
  by (simp add: modules_ok_def speller0_def)

lemma speller0_listener_ok: "listener_ok speller0 [] 1"
  by (simp add: listener_ok_def speller0_def)

lemma speller0_step_plain:
  "forward_step speller0 [[0, 2]] [[[0, 0]]] [] id = Inr [[[0, 1, 0], [1, 0, 0]]]"
  by code_simp

lemma attentive0_fields:
  "use_attention attentive0"
  "attention attentive0 = Some (Attention_forward (\<lambda>q e. 0) (\<lambda>ws. 0))"
  by (simp_all add: attentive0_def)

lemma attentive0_step: "forward_step attentive0 [[0]] [[[0, 0]]] [[]] id = Inl InputError"
  by (simp add: forward_step_def attentive0_def speller0_def size1_def Attention_forward_def)

text \<open>
  C8.  Without \<open>use_attention\<close> a step is the embedding, the dropout, the recurrent module
  and the projection of the recurrent output itself onto the vocabulary: the attention is
  not called, so the result is the same whatever the \<open>attention\<close> field holds and whatever
  \<open>listener_outputs\<close> is.  The step is not an error: it returns whenever the tokens are in
  the vocabulary and the remaining modules work.
\<close>

theorem step_without_attention:
  "\<not> use_attention self \<longrightarrow>
     forward_step self input h lo f
       = (if list_ex (list_ex (\<lambda>token. output_size self \<le> token)) input then Inl IndexError
          else if list_ex (\<lambda>layer. length layer \<noteq> length input) h then Inl RuntimeError
          else case collect (map (\<lambda>b. rnn self (map (input_dropout self) (map (embedding self) (input ! b)))
                                         (map (\<lambda>layer. layer ! b) h)) [0..<length input]) of
                 Inl e \<Rightarrow> Inl e
               | Inr speller_output \<Rightarrow>
                   if input = [] then Inl RuntimeError
                   else collect (map (\<lambda>c. view_row (size1 input) (map (\<lambda>v. f (out self v)) c))
                                   speller_output))
     \<and> forward_step self input h lo f = forward_step (self\<lparr>attention := a\<rparr>) input h lo' f
     \<and> (modules_ok self f \<and> input \<noteq> [] \<and> (\<forall>row\<in>set input. length row = l) \<and> 0 < l
          \<and> (\<forall>row\<in>set input. \<forall>t\<in>set row. t < output_size self)
          \<and> length h = layer_size self \<and> (\<forall>layer\<in>set h. length layer = length input)
          \<and> (\<forall>layer\<in>set h. \<forall>row\<in>set layer. length row = hidden_size self)
        \<longrightarrow> (\<exists>ps. forward_step self input h lo f = Inr ps))"
proof (intro impI conjI)
  assume na: "\<not> use_attention self"
  have eqR: "map (\<lambda>b. rnn self (map (map (input_dropout self)) (map (map (embedding self)) input) ! b)
                   (map (\<lambda>layer. layer ! b) h)) [0..<length input]
      = map (\<lambda>b. rnn self (map (input_dropout self) (map (embedding self) (input ! b)))
                   (map (\<lambda>layer. layer ! b) h)) [0..<length input]"
    by simp
  from na show "forward_step self input h lo f
       = (if list_ex (list_ex (\<lambda>token. output_size self \<le> token)) input then Inl IndexError
          else if list_ex (\<lambda>layer. length layer \<noteq> length input) h then Inl RuntimeError
          else case collect (map (\<lambda>b. rnn self (map (input_dropout self) (map (embedding self) (input ! b)))
                                         (map (\<lambda>layer. layer ! b) h)) [0..<length input]) of
                 Inl e \<Rightarrow> Inl e
               | Inr speller_output \<Rightarrow>
                   if input = [] then Inl RuntimeError
                   else collect (map (\<lambda>c. view_row (size1 input) (map (\<lambda>v. f (out self v)) c))
                                   speller_output))"
    unfolding forward_step_def Let_def eqR by (simp cong: sum.case_cong)
  from na show "forward_step self input h lo f = forward_step (self\<lparr>attention := a\<rparr>) input h lo' f"
    by (simp add: forward_step_def Let_def split: sum.splits)
  assume ok: "modules_ok self f \<and> input \<noteq> [] \<and> (\<forall>row\<in>set input. length row = l) \<and> 0 < l
          \<and> (\<forall>row\<in>set input. \<forall>t\<in>set row. t < output_size self)
          \<and> length h = layer_size self \<and> (\<forall>layer\<in>set h. length layer = length input)
          \<and> (\<forall>layer\<in>set h. \<forall>row\<in>set layer. length row = hidden_size self)"
  from na have "listener_ok self lo (length input)" by (simp add: listener_ok_def)
  with ok forward_step_ok [of self f input l h lo]
  show "\<exists>ps. forward_step self input h lo f = Inr ps" by blast
qed

theorem step_without_attention_witness:
  "\<not> use_attention speller0 \<and> modules_ok speller0 id
   \<and> forward_step speller0 [[0, 2]] [[[0, 0]]] [] id = Inr [[[0, 1, 0], [1, 0, 0]]]
   \<and> forward_step (speller0\<lparr>attention := Some (Attention_forward (\<lambda>q e. 0) (\<lambda>ws. 0))\<rparr>)
        [[0, 2]] [[[0, 0]]] [[]] id
       = Inr [[[0, 1, 0], [1, 0, 0]]]"
proof -
  from step_without_attention [where self = speller0 and input = "[[0, 2]]"
      and h = "[[[0, 0]]]" and lo = "[]" and lo' = "[[]]" and f = id and l = 2
      and a = "Some (Attention_forward (\<lambda>q e. 0) (\<lambda>ws. 0))"] speller0_fields(4)
  have "forward_step speller0 [[0, 2]] [[[0, 0]]] [] id
        = forward_step (speller0\<lparr>attention := Some (Attention_forward (\<lambda>q e. 0) (\<lambda>ws. 0))\<rparr>)
            [[0, 2]] [[[0, 0]]] [[]] id"
    by blast
  with speller0_step_plain speller0_fields(4) speller0_modules_ok show ?thesis by simp
qed

text \<open>
  C6.  The attention called with an empty encoder sequence returns an input error, and a
  step of a decoder holding this attention does not return scores when a batch element
  has an empty encoder sequence: the error, or an earlier one, is what the step returns.
\<close>

theorem attention_rejects_empty_encoder:
  "Attention_forward inner weighted_sum decoder_output [] = Inl InputError
   \<and> (use_attention self \<and> attention self = Some (Attention_forward inner weighted_sum)
        \<and> b < length input \<and> lo ! b = []
      \<longrightarrow> (\<exists>e. forward_step self input h lo f = Inl e))"
proof (intro conjI impI)
  show "Attention_forward inner weighted_sum decoder_output [] = Inl InputError"
    by (simp add: Attention_forward_def)
next
  assume a: "use_attention self \<and> attention self = Some (Attention_forward inner weighted_sum)
        \<and> b < length input \<and> lo ! b = []"
  show "\<exists>e. forward_step self input h lo f = Inl e"
  proof (cases "forward_step self input h lo f")
    case (Inl e)
    then show ?thesis by blast
  next
    case (Inr ps)
    from forward_step_Inr_D(4) [OF Inr, of b] a
    have "forward_step_row self (size1 input) (input ! b) (map (\<lambda>layer. layer ! b) h) [] f
          = Inr (ps ! b)"
      by simp
    from forward_step_row_Inr_D(2) [OF this] a show ?thesis
      by (auto simp add: Attention_forward_def)
  qed
qed

theorem attention_rejects_empty_encoder_witness:
  "use_attention attentive0
   \<and> Attention_forward (\<lambda>q e. 0) (\<lambda>ws. 0 :: nat) [0 :: nat] [] = Inl InputError
   \<and> forward_step attentive0 [[0]] [[[0, 0]]] [[]] id = Inl InputError"
  using attention_rejects_empty_encoder [where self = attentive0 and inner = "\<lambda>q e. 0"
      and weighted_sum = "\<lambda>ws. 0" and decoder_output = "[0]" and b = 0 and input = "[[0]]"
      and lo = "[[]]" and h = "[[[0, 0]]]" and f = id]
    attentive0_fields attentive0_step
  by simp

section \<open>The random draws of a decode call\<close>

lemma uniform_shape:
  "length (fst (uniform d0 d1 d2 a b g)) = d0"
  "\<forall>layer\<in>set (fst (uniform d0 d1 d2 a b g)). length layer = d1"
  "\<forall>layer\<in>set (fst (uniform d0 d1 d2 a b g)). \<forall>row\<in>set layer. length row = d2"
  by (auto simp add: uniform_def)

lemma uniform_range:
  assumes "\<forall>n. 0 \<le> gen_draws g n \<and> gen_draws g n \<le> 1" and "a \<le> b"
  shows "\<forall>layer\<in>set (fst (uniform d0 d1 d2 a b g)). \<forall>row\<in>set layer. \<forall>x\<in>set row. a \<le> x \<and> x \<le> b"
proof -
  have "a \<le> a + (b - a) * u \<and> a + (b - a) * u \<le> b" if "0 \<le> u" "u \<le> 1" for u :: real
  proof -
    from that assms(2) have "0 \<le> (b - a) * u" by simp
    moreover from that assms(2) have "(b - a) * u \<le> (b - a) * 1"
      by (intro mult_left_mono) simp_all
    ultimately show ?thesis by simp
  qed
  with assms(1) show ?thesis by (auto simp add: uniform_def)
qed

lemma uniform_entry:
  assumes "i < d0" and "j < d1" and "n < d2"
  shows "fst (uniform d0 d1 d2 a b g) ! i ! j ! n
         = a + (b - a) * gen_draws g (gen_pos g + (i * d1 + j) * d2 + n)"
  using assms by (simp add: uniform_def)

lemma uniform_flat:
  "concat (concat (fst (uniform d0 d1 d2 a b g)))
   = map (\<lambda>p. a + (b - a) * gen_draws g (gen_pos g + p)) [0..<d0 * d1 * d2]"
proof -
  let ?e = "\<lambda>p. a + (b - a) * gen_draws g (gen_pos g + p)"
  let ?row = "\<lambda>q. map (\<lambda>n. ?e (q * d2 + n)) [0..<d2]"
  have "fst (uniform d0 d1 d2 a b g) = map (\<lambda>i. map (\<lambda>j. ?row (i * d1 + j)) [0..<d1]) [0..<d0]"
    by (simp add: uniform_def add.assoc)
  with concat_map_upt_blocks [of ?row d1 d0]
  have "concat (fst (uniform d0 d1 d2 a b g)) = map ?row [0..<d0 * d1]"
    by simp
  with concat_map_upt_blocks [of ?e d2 "d0 * d1"] show ?thesis
    by simp
qed

lemma drawn_hidden_ok:
  "length (drawn_hidden self n rs) = layer_size self"
  "\<forall>layer\<in>set (drawn_hidden self n rs). length layer = n"
  "\<forall>layer\<in>set (drawn_hidden self n rs). \<forall>row\<in>set layer. length row = hidden_size self"
  by (rule uniform_shape)+

lemma forward_modes:
  "forward topk self inputs lh lo f ratio False rs
   = ((if drawn_coin rs < ratio
       then teacher_forced self inputs (drawn_hidden self (length inputs) rs) lo f
       else free_running topk self inputs (drawn_hidden self (length inputs) rs) lo f),
      \<lparr>py_random = snd (random_random (py_random rs)),
       torch_random = snd (uniform (layer_size self) (length inputs) (hidden_size self) (- 0.1) 0.1
                            (torch_random rs))\<rparr>)"
  by (simp add: forward_def Let_def split_beta)


lemma rs0_coin: "drawn_coin rs0 = 1 / 2"
  by (simp add: rs0_def random_random_def)

lemma speller0_free_running:
  "fst (forward argmax_idx speller0 [[0, 2, 1]] () [] id 0 False rs0)
   = Inr ([[1, 2]], Some [[[0, 1, 0], [0, 0, 1]]])"
  by code_simp

lemma speller0_teacher_forced:
  "fst (forward argmax_idx speller0 [[0, 2, 1]] () [] id 1 False rs0)
   = Inr ([[1, 0]], Some [[[0, 1, 0], [1, 0, 0]]])"
  by code_simp


lemma speller0_step_02:
  "forward_step speller0 [[0, 2]] (drawn_hidden speller0 1 rs0) [] id
   = Inr [[[0, 1, 0], [1, 0, 0]]]"
  by code_simp

lemma rs1_hidden: "drawn_hidden speller0 1 rs1 = [[[- (3 / 50), - (1 / 15)]]]"
  by (simp add: uniform_def speller0_def rs1_def upt_conv_Cons)

lemma rs1_draws: "\<forall>n. 0 \<le> gen_draws (torch_random rs1) n \<and> gen_draws (torch_random rs1) n \<le> 1"
  by (simp add: rs1_def)

lemma rs1_fields:
  "gen_pos (torch_random rs1) = 3" "gen_draws (torch_random rs1) 3 = 1 / 5"
  "gen_draws (torch_random rs1) 4 = 1 / 6"
  by (simp_all add: rs1_def)

text \<open>
  C4.  The result of a decode call is the same for any two values of \<open>listener_hidden\<close>,
  all else (the random sources included) being equal.  The hidden state the modes decode
  with is the tensor \<open>[layer_size, B, hidden_size]\<close> drawn from torch's generator at the
  start of the call: its entry \<open>(i, j, n)\<close> is the draw at position
  \<open>(i * B + j) * hidden_size + n\<close> after the generator's position, scaled by
  \<open>- 0.1 + 0.2 * u\<close>; read row by row, the entries are the generator's next
  \<open>layer_size * B * hidden_size\<close> draws, each taken once; and the call leaves torch's
  generator past these draws, in every mode, so that the next call draws other numbers.
  Every entry lies in \<open>[-0.1, 0.1]\<close> when the draws lie in \<open>[0, 1]\<close>.  (The modules are
  functions here: draws that a dropout module makes of its own are not counted.)
\<close>

theorem forward_hidden_state_is_fresh:
  "forward topk self inputs lh lo f ratio beam rs = forward topk self inputs lh' lo f ratio beam rs
   \<and> fst (forward topk self inputs lh lo f ratio False rs)
       = (if drawn_coin rs < ratio
          then teacher_forced self inputs (drawn_hidden self (length inputs) rs) lo f
          else free_running topk self inputs (drawn_hidden self (length inputs) rs) lo f)
   \<and> length (drawn_hidden self (length inputs) rs) = layer_size self
   \<and> (\<forall>layer\<in>set (drawn_hidden self (length inputs) rs).
         length layer = length inputs \<and> (\<forall>row\<in>set layer. length row = hidden_size self))
   \<and> ((\<forall>n. 0 \<le> gen_draws (torch_random rs) n \<and> gen_draws (torch_random rs) n \<le> 1)
        \<longrightarrow> (\<forall>layer\<in>set (drawn_hidden self (length inputs) rs).
              \<forall>row\<in>set layer. \<forall>x\<in>set row. - 0.1 \<le> x \<and> x \<le> 0.1))
   \<and> (\<forall>i<layer_size self. \<forall>j<length inputs. \<forall>n<hidden_size self.
         drawn_hidden self (length inputs) rs ! i ! j ! n
         = - 0.1 + 0.2 * gen_draws (torch_random rs)
                     (gen_pos (torch_random rs) + (i * length inputs + j) * hidden_size self + n))
   \<and> concat (concat (drawn_hidden self (length inputs) rs))
       = map (\<lambda>p. - 0.1 + 0.2 * gen_draws (torch_random rs) (gen_pos (torch_random rs) + p))
           [0..<layer_size self * length inputs * hidden_size self]
   \<and> torch_random (snd (forward topk self inputs lh lo f ratio beam rs))
       = (torch_random rs)\<lparr>gen_pos := gen_pos (torch_random rs)
                                        + layer_size self * length inputs * hidden_size self\<rparr>"
proof (intro conjI)
  show "forward topk self inputs lh lo f ratio beam rs = forward topk self inputs lh' lo f ratio beam rs"
    by (simp add: forward_def)
  show "fst (forward topk self inputs lh lo f ratio False rs)
       = (if drawn_coin rs < ratio
          then teacher_forced self inputs (drawn_hidden self (length inputs) rs) lo f
          else free_running topk self inputs (drawn_hidden self (length inputs) rs) lo f)"
    by (simp add: forward_modes)
  show "length (drawn_hidden self (length inputs) rs) = layer_size self"
    by (rule uniform_shape)
  show "\<forall>layer\<in>set (drawn_hidden self (length inputs) rs).
         length layer = length inputs \<and> (\<forall>row\<in>set layer. length row = hidden_size self)"
    using uniform_shape(2,3) by blast
  show "(\<forall>n. 0 \<le> gen_draws (torch_random rs) n \<and> gen_draws (torch_random rs) n \<le> 1)
        \<longrightarrow> (\<forall>layer\<in>set (drawn_hidden self (length inputs) rs).
              \<forall>row\<in>set layer. \<forall>x\<in>set row. - 0.1 \<le> x \<and> x \<le> 0.1)"
    using uniform_range [of "torch_random rs" "- 0.1" "0.1"] by simp
  show "\<forall>i<layer_size self. \<forall>j<length inputs. \<forall>n<hidden_size self.
         drawn_hidden self (length inputs) rs ! i ! j ! n
         = - 0.1 + 0.2 * gen_draws (torch_random rs)
                     (gen_pos (torch_random rs) + (i * length inputs + j) * hidden_size self + n)"
    by (simp add: uniform_entry)
  show "concat (concat (drawn_hidden self (length inputs) rs))
       = map (\<lambda>p. - 0.1 + 0.2 * gen_draws (torch_random rs) (gen_pos (torch_random rs) + p))
           [0..<layer_size self * length inputs * hidden_size self]"
    by (simp add: uniform_flat)
  show "torch_random (snd (forward topk self inputs lh lo f ratio beam rs))
       = (torch_random rs)\<lparr>gen_pos := gen_pos (torch_random rs)
                                        + layer_size self * length inputs * hidden_size self\<rparr>"
    by (simp add: forward_def Let_def split_beta uniform_def)
qed

theorem forward_hidden_state_is_fresh_witness:
  "forward argmax_idx speller0 [[0, 2, 1]] [[[1 :: real]]] [] id 0 False rs1
     = forward argmax_idx speller0 [[0, 2, 1]] [[[2 :: real]]] [] id 0 False rs1
   \<and> gen_pos (torch_random rs1) = 3
   \<and> gen_draws (torch_random rs1) 3 = 1 / 5 \<and> gen_draws (torch_random rs1) 4 = 1 / 6
   \<and> drawn_hidden speller0 1 rs1 = [[[- (3 / 50), - (1 / 15)]]]
   \<and> concat (concat (drawn_hidden speller0 1 rs1))
       = [- 0.1 + 0.2 * gen_draws (torch_random rs1) 3, - 0.1 + 0.2 * gen_draws (torch_random rs1) 4]
   \<and> list_all (list_all (list_all (\<lambda>x. - 0.1 \<le> x \<and> x \<le> 0.1))) (drawn_hidden speller0 1 rs1)
   \<and> gen_pos (torch_random
         (snd (forward argmax_idx speller0 [[0, 2, 1]] [[[1 :: real]]] [] id 0 False rs1))) = 5"
proof -
  note fresh = forward_hidden_state_is_fresh [where topk = argmax_idx and self = speller0 and f = id
      and inputs = "[[0, 2, 1]]" and lo = "[]" and rs = rs1 and ratio = 0 and beam = False
      and lh = "[[[1 :: real]]]" and lh' = "[[[2 :: real]]]"]
  from fresh have same: "forward argmax_idx speller0 [[0, 2, 1]] [[[1 :: real]]] [] id 0 False rs1
     = forward argmax_idx speller0 [[0, 2, 1]] [[[2 :: real]]] [] id 0 False rs1"
    by (rule conjunct1)
  from fresh rs1_draws
  have "\<forall>layer\<in>set (drawn_hidden speller0 (length [[0, 2, 1 :: nat]]) rs1).
          \<forall>row\<in>set layer. \<forall>x\<in>set row. - 0.1 \<le> x \<and> x \<le> 0.1"
    by blast
  then have range: "list_all (list_all (list_all (\<lambda>x. - 0.1 \<le> x \<and> x \<le> 0.1)))
               (drawn_hidden speller0 1 rs1)"
    by (simp add: list_all_iff)
  from fresh
  have "concat (concat (drawn_hidden speller0 (length [[0, 2, 1 :: nat]]) rs1))
       = map (\<lambda>p. - 0.1 + 0.2 * gen_draws (torch_random rs1) (gen_pos (torch_random rs1) + p))
           [0..<layer_size speller0 * length [[0, 2, 1 :: nat]] * hidden_size speller0]"
    by blast
  then have flat: "concat (concat (drawn_hidden speller0 1 rs1))
       = [- 0.1 + 0.2 * gen_draws (torch_random rs1) 3, - 0.1 + 0.2 * gen_draws (torch_random rs1) 4]"
    by (simp add: speller0_def rs1_fields(1) upt_conv_Cons)
  from fresh
  have "torch_random (snd (forward argmax_idx speller0 [[0, 2, 1]] [[[1 :: real]]] [] id 0 False rs1))
       = (torch_random rs1)\<lparr>gen_pos := gen_pos (torch_random rs1)
             + layer_size speller0 * length [[0, 2, 1 :: nat]] * hidden_size speller0\<rparr>"
    by blast
  then have pos: "gen_pos (torch_random
         (snd (forward argmax_idx speller0 [[0, 2, 1]] [[[1 :: real]]] [] id 0 False rs1))) = 5"
    by (simp add: speller0_def rs1_fields(1))
  from same rs1_fields rs1_hidden flat range pos show ?thesis by (intro conjI)
qed

text \<open>
  C5.  A decode call takes exactly one number from Python's generator, however many steps
  it then runs, and a call without beam search is as a whole the teacher-forced decode
  when that number is below \<open>teacher_forcing_ratio\<close> and as a whole the free-running
  decode otherwise.
\<close>

theorem forward_draws_one_coin:
  "py_random (snd (forward topk self inputs lh lo f ratio beam rs))
     = (py_random rs)\<lparr>gen_pos := gen_pos (py_random rs) + 1\<rparr>
   \<and> fst (forward topk self inputs lh lo f ratio False rs)
       = (if gen_draws (py_random rs) (gen_pos (py_random rs)) < ratio
          then teacher_forced self inputs (drawn_hidden self (length inputs) rs) lo f
          else free_running topk self inputs (drawn_hidden self (length inputs) rs) lo f)"
  by (simp add: forward_def Let_def split_beta random_random_def)

theorem forward_draws_one_coin_witness:
  "gen_pos (py_random (snd (forward argmax_idx speller0 [[0, 2, 1]] () [] id 0 False rs0))) = 1
   \<and> gen_pos (py_random (snd (forward argmax_idx speller0 [[0, 2, 1]] () [] id 0 True rs0))) = 1
   \<and> fst (forward argmax_idx speller0 [[0, 2, 1]] () [] id 0 False rs0)
       = free_running argmax_idx speller0 [[0, 2, 1]] (drawn_hidden speller0 1 rs0) [] id
   \<and> fst (forward argmax_idx speller0 [[0, 2, 1]] () [] id 1 False rs0)
       = teacher_forced speller0 [[0, 2, 1]] (drawn_hidden speller0 1 rs0) [] id"
  using forward_draws_one_coin [where topk = argmax_idx and self = speller0 and f = id
      and inputs = "[[0, 2, 1]]" and lo = "[]" and rs = rs0 and ratio = 0 and beam = False
      and lh = "()"]
    forward_draws_one_coin [where topk = argmax_idx and self = speller0 and f = id
      and inputs = "[[0, 2, 1]]" and lo = "[]" and rs = rs0 and ratio = 0 and beam = True
      and lh = "()"]
    forward_draws_one_coin [where topk = argmax_idx and self = speller0 and f = id
      and inputs = "[[0, 2, 1]]" and lo = "[]" and rs = rs0 and ratio = 1 and beam = False
      and lh = "()"]
  by (simp add: rs0_def)

section \<open>The returned pair\<close>

lemma non_beam_Inr_D:
  assumes "fst (forward topk self inputs lh lo f ratio False rs) = Inr r"
  shows "\<exists>rs'. decode_output rs' = Inr r"
proof (cases "drawn_coin rs < ratio")
  case True
  with assms have "teacher_forced self inputs (drawn_hidden self (length inputs) rs) lo f = Inr r"
    by (simp add: forward_modes)
  then show ?thesis
    by (auto simp add: teacher_forced_def Let_def split: sum.splits)
next
  case False
  with assms have "free_running topk self inputs (drawn_hidden self (length inputs) rs) lo f = Inr r"
    by (simp add: forward_modes)
  then show ?thesis
    by (auto simp add: free_running_def Let_def split: sum.splits if_splits)
qed

text \<open>
  C10.  When a call without beam search returns \<open>(y_hats, logit)\<close>, the two have the same
  shape, and at every batch element and step the entry of \<open>y_hats\<close> is an index into the
  distribution at that position of \<open>logit\<close>, where the distribution has its maximum.
\<close>

theorem y_hats_is_argmax_of_logit:
  "fst (forward topk self inputs lh lo f ratio False rs) = Inr (y_hats, lg) \<longrightarrow>
     (\<exists>logit. lg = Some logit \<and> length y_hats = length logit
        \<and> (\<forall>b<length logit. length (y_hats ! b) = length (logit ! b)
              \<and> (\<forall>t<length (logit ! b).
                    y_hats ! b ! t < length (logit ! b ! t)
                    \<and> logit ! b ! t ! (y_hats ! b ! t) = Max (set (logit ! b ! t)))))"
proof
  assume "fst (forward topk self inputs lh lo f ratio False rs) = Inr (y_hats, lg)"
  from non_beam_Inr_D [OF this] obtain rs' where "decode_output rs' = Inr (y_hats, lg)"
    by blast
  then obtain logit where lg: "lg = Some logit" and y: "y_hats = map (map argmax_idx) logit"
    and ne: "\<forall>p\<in>set logit. \<forall>d\<in>set p. d \<noteq> []"
    using decode_output_Inr_D by blast
  have "y_hats ! b ! t < length (logit ! b ! t)
        \<and> logit ! b ! t ! (y_hats ! b ! t) = Max (set (logit ! b ! t))"
    if b: "b < length logit" and t: "t < length (logit ! b)" for b t
  proof -
    from b have "logit ! b \<in> set logit" by simp
    moreover from t have "logit ! b ! t \<in> set (logit ! b)" by simp
    ultimately have "logit ! b ! t \<noteq> []" using ne by blast
    moreover from b t y have "y_hats ! b ! t = argmax_idx (logit ! b ! t)" by simp
    ultimately show ?thesis by (simp add: argmax_idx_less argmax_idx_Max)
  qed
  with lg y show "\<exists>logit. lg = Some logit \<and> length y_hats = length logit
        \<and> (\<forall>b<length logit. length (y_hats ! b) = length (logit ! b)
              \<and> (\<forall>t<length (logit ! b).
                    y_hats ! b ! t < length (logit ! b ! t)
                    \<and> logit ! b ! t ! (y_hats ! b ! t) = Max (set (logit ! b ! t))))"
    by simp
qed

theorem y_hats_is_argmax_of_logit_witness:
  "fst (forward argmax_idx speller0 [[0, 2, 1]] () [] id 0 False rs0)
     = Inr ([[1, 2]], Some [[[0, 1, 0], [0, 0, 1]]])
   \<and> [[[0, 1, 0], [0, 0, 1 :: real]]] ! 0 ! 1 ! ([[1, 2]] ! 0 ! 1) = Max (set [0, 0, 1])"
  using y_hats_is_argmax_of_logit [where topk = argmax_idx and self = speller0 and f = id
      and inputs = "[[0, 2, 1]]" and lo = "[]" and rs = rs0 and ratio = 0
      and lh = "()" and y_hats = "[[1, 2]]" and lg = "Some [[[0, 1, 0], [0, 0, 1]]]"]
    speller0_free_running
  by simp

section \<open>Teacher forcing\<close>

text \<open>
  C2.  A teacher-forced call on \<open>B \<ge> 1\<close> targets of length \<open>L \<ge> 2\<close>, with the tokens before
  the last in the vocabulary and working modules, makes one call of the step, on every
  target without its last token, and returns that call's result as \<open>logit\<close>: for each
  batch element \<open>L - 1\<close> distributions over the vocabulary.  Whenever a teacher-forced call
  returns at all, \<open>logit\<close> has \<open>L - 1\<close> distributions for each of the \<open>B\<close> batch elements.
\<close>

theorem teacher_forced_single_call:
  "(modules_ok self f \<and> inputs \<noteq> [] \<and> (\<forall>row\<in>set inputs. length row = l) \<and> 2 \<le> l
      \<and> (\<forall>row\<in>set inputs. \<forall>t\<in>set (butlast row). t < output_size self)
      \<and> listener_ok self lo (length inputs) \<and> drawn_coin rs < ratio
    \<longrightarrow> (\<exists>predicted.
           forward_step self (map butlast inputs) (drawn_hidden self (length inputs) rs) lo f
             = Inr predicted
           \<and> fst (forward topk self inputs lh lo f ratio False rs)
               = Inr (map (map argmax_idx) predicted, Some predicted)
           \<and> length predicted = length inputs
           \<and> (\<forall>p\<in>set predicted. length p = l - 1 \<and> (\<forall>d\<in>set p. length d = output_size self))))
   \<and> (drawn_coin rs < ratio \<and> (\<forall>row\<in>set inputs. length row = l)
        \<and> fst (forward topk self inputs lh lo f ratio False rs) = Inr (y_hats, Some logit)
      \<longrightarrow> length logit = length inputs \<and> (\<forall>p\<in>set logit. length p = l - 1))"
proof (rule conjI; rule impI)
  assume a: "modules_ok self f \<and> inputs \<noteq> [] \<and> (\<forall>row\<in>set inputs. length row = l) \<and> 2 \<le> l
      \<and> (\<forall>row\<in>set inputs. \<forall>t\<in>set (butlast row). t < output_size self)
      \<and> listener_ok self lo (length inputs) \<and> drawn_coin rs < ratio"
  let ?h = "drawn_hidden self (length inputs) rs"
  let ?in = "map butlast inputs"
  from a have m: "modules_ok self f" by simp
  from a have "?in \<noteq> []" by simp
  moreover from a have "\<forall>row\<in>set ?in. length row = l - 1" by simp
  moreover from a have "0 < l - 1" by simp
  moreover from a have "\<forall>row\<in>set ?in. \<forall>t\<in>set row. t < output_size self" by simp
  moreover have "length ?h = layer_size self" by (rule drawn_hidden_ok)
  moreover have "\<forall>layer\<in>set ?h. length layer = length ?in"
    using drawn_hidden_ok(2) [of self "length inputs" rs] by simp
  moreover have "\<forall>layer\<in>set ?h. \<forall>row\<in>set layer. length row = hidden_size self"
    by (rule drawn_hidden_ok)
  moreover from a have "listener_ok self lo (length ?in)" by simp
  ultimately obtain ps where st: "forward_step self ?in ?h lo f = Inr ps"
    and len: "length ps = length inputs"
    and sh: "\<forall>p\<in>set ps. length p = l - 1 \<and> (\<forall>d\<in>set p. length d = output_size self)"
    using forward_step_ok [OF m, of ?in "l - 1" ?h lo] by auto
  from len a have ne: "ps \<noteq> []" by auto
  with sh have s1: "size1 ps = l - 1" by (intro size1_width) simp_all
  from ne sh a have "stack_dim1 (map (\<lambda>di. map (\<lambda>row. row ! di) ps) [0..<l - 1]) = Inr ps"
    by (intro stack_unstack) simp_all
  moreover from m have "0 < output_size self" by (simp add: modules_ok_def)
  with sh have "\<forall>p\<in>set ps. \<forall>d\<in>set p. d \<noteq> []" by fastforce
  ultimately have "decode_output (map (\<lambda>di. map (\<lambda>row. row ! di) ps) [0..<l - 1])
      = Inr (map (map argmax_idx) ps, Some ps)"
    by (rule decode_output_ok)
  with st s1 a have "fst (forward topk self inputs lh lo f ratio False rs)
      = Inr (map (map argmax_idx) ps, Some ps)"
    by (simp add: forward_modes teacher_forced_def Let_def)
  with st len sh show "\<exists>predicted.
           forward_step self (map butlast inputs) (drawn_hidden self (length inputs) rs) lo f
             = Inr predicted
           \<and> fst (forward topk self inputs lh lo f ratio False rs)
               = Inr (map (map argmax_idx) predicted, Some predicted)
           \<and> length predicted = length inputs
           \<and> (\<forall>p\<in>set predicted. length p = l - 1 \<and> (\<forall>d\<in>set p. length d = output_size self))"
    by blast
next
  assume a: "drawn_coin rs < ratio \<and> (\<forall>row\<in>set inputs. length row = l)
        \<and> fst (forward topk self inputs lh lo f ratio False rs) = Inr (y_hats, Some logit)"
  let ?h = "drawn_hidden self (length inputs) rs"
  let ?in = "map butlast inputs"
  from a have tf: "teacher_forced self inputs ?h lo f = Inr (y_hats, Some logit)"
    by (auto simp add: forward_modes split: if_splits)
  then obtain ps where st: "forward_step self ?in ?h lo f = Inr ps"
    and dec: "decode_output (map (\<lambda>di. map (\<lambda>row. row ! di) ps) [0..<size1 ps])
               = Inr (y_hats, Some logit)"
    by (auto simp add: teacher_forced_def Let_def split: sum.splits)
  from st have ne: "?in \<noteq> []" and len: "length ps = length ?in"
    by (rule forward_step_Inr_D)+
  from a have w: "\<forall>row\<in>set ?in. length row = l - 1" by simp
  with ne have s1: "size1 ?in = l - 1" by (rule size1_width)
  have sh: "\<forall>p\<in>set ps. length p = l - 1"
  proof
    fix p assume "p \<in> set ps"
    then obtain b where b: "b < length ps" and p: "p = ps ! b"
      by (auto simp add: in_set_conv_nth)
    from b len have "b < length ?in" by simp
    from forward_step_Inr_D(4) [OF st this] p s1
    have "forward_step_row self (l - 1) (?in ! b) (map (\<lambda>layer. layer ! b) ?h)
             (if use_attention self then lo ! b else []) f = Inr p"
      by simp
    from forward_step_row_Inr_D(2) [OF this] show "length p = l - 1"
      by (auto dest: view_row_length)
  qed
  from len ne have pne: "ps \<noteq> []" by auto
  with sh have s1': "size1 ps = l - 1" by (intro size1_width) simp_all
  from dec obtain lg where st2: "stack_dim1 (map (\<lambda>di. map (\<lambda>row. row ! di) ps) [0..<size1 ps]) = Inr lg"
    and lg: "Some logit = Some lg"
    using decode_output_Inr_D by blast
  from stack_dim1_Inr_D(1) [OF st2] s1' have pos: "0 < l - 1" by simp
  with pne sh have "stack_dim1 (map (\<lambda>di. map (\<lambda>row. row ! di) ps) [0..<l - 1]) = Inr ps"
    by (intro stack_unstack) simp_all
  with st2 s1' lg have "logit = ps" by simp
  with len sh show "length logit = length inputs \<and> (\<forall>p\<in>set logit. length p = l - 1)"
    by simp
qed

theorem teacher_forced_single_call_witness:
  "modules_ok speller0 id \<and> listener_ok speller0 [] 1 \<and> drawn_coin rs0 < 1
   \<and> forward_step speller0 [[0, 2]] (drawn_hidden speller0 1 rs0) [] id
       = Inr [[[0, 1, 0], [1, 0, 0]]]
   \<and> fst (forward argmax_idx speller0 [[0, 2, 1]] () [] id 1 False rs0)
       = Inr ([[1, 0]], Some [[[0, 1, 0], [1, 0, 0]]])
   \<and> length [[0, 1, 0], [1, 0, 0 :: real]] = 3 - 1"
  using teacher_forced_single_call [where topk = argmax_idx and self = speller0 and f = id
      and inputs = "[[0, 2, 1]]" and l = 3 and lo = "[]" and rs = rs0 and ratio = 1
      and lh = "()" and y_hats = "[[1, 0]]" and logit = "[[[0, 1, 0], [1, 0, 0]]]"]
    speller0_modules_ok speller0_listener_ok rs0_coin speller0_teacher_forced speller0_step_02
  by simp

section \<open>Free running\<close>

lemma free_running_loop_chain:
  assumes "free_running_loop topk self h lo f n input acc = Inr drs"
    and "\<forall>row\<in>set input. length row = 1"
  shows "\<exists>new. drs = acc @ new \<and> length new = n \<and> greedy_chain topk self h lo f input new
            \<and> (\<forall>s\<in>set new. length s = length input)"
  using assms
proof (induction n arbitrary: input acc)
  case 0
  then show ?case by simp
next
  case (Suc n)
  from Suc.prems(1) obtain ps where st: "forward_step self input h lo f = Inr ps"
    by (auto split: sum.splits)
  let ?so = "map concat ps"
  from Suc.prems(1) st obtain input' where tk: "topk1 topk ?so = Inr input'"
    by (auto simp add: Let_def split: sum.splits)
  from Suc.prems(1) st tk
  have rec: "free_running_loop topk self h lo f n input' (acc @ [?so]) = Inr drs"
    by (simp add: Let_def)
  from tk have input': "input' = map (\<lambda>d. [topk d]) ?so" and ne: "list_all (\<lambda>d. d \<noteq> []) ?so"
    by (rule topk1_Inr_D)+
  from input' have w': "\<forall>row\<in>set input'. length row = 1" by auto
  from st have len: "length ps = length input" by (rule forward_step_Inr_D)
  from Suc.IH [OF rec w'] obtain new where new: "drs = (acc @ [?so]) @ new" "length new = n"
    "greedy_chain topk self h lo f input' new" "\<forall>s\<in>set new. length s = length input'"
    by blast
  from st Suc.prems(2) have ps: "ps = map (\<lambda>d. [d]) ?so" by (rule forward_step_single)
  have "drs = acc @ (?so # new)" using new(1) by simp
  moreover have "length (?so # new) = Suc n" using new(2) by simp
  moreover have "greedy_chain topk self h lo f input (?so # new)"
    using st ps ne new(3) input' by simp
  moreover have "\<forall>s\<in>set (?so # new). length s = length input"
    using new(4) input' len by simp
  ultimately show ?case by blast
qed

lemma greedy_chain_nth:
  assumes "greedy_chain topk self h lo f input new" and "t < length new"
  shows "forward_step self (if t = 0 then input else map (\<lambda>d. [topk d]) (new ! (t - 1)))
           h lo f = Inr (map (\<lambda>d. [d]) (new ! t))"
    and "list_all (\<lambda>d. d \<noteq> []) (new ! t)"
  using assms
proof (induction new arbitrary: input t)
  case Nil
  {
    case 1
    then show ?case by simp
  next
    case 2
    then show ?case by simp
  }
next
  case (Cons s ss)
  {
    case 1
    show ?case
    proof (cases t)
      case 0
      with "1" show ?thesis by simp
    next
      case (Suc t')
      with "1" have c: "greedy_chain topk self h lo f (map (\<lambda>d. [topk d]) s) ss" and t': "t' < length ss"
        by simp_all
      from Cons.IH(1) [OF c t'] Suc show ?thesis
        by (cases t') simp_all
    qed
  next
    case 2
    show ?case
    proof (cases t)
      case 0
      with "2" show ?thesis by simp
    next
      case (Suc t')
      with "2" have c: "greedy_chain topk self h lo f (map (\<lambda>d. [topk d]) s) ss" and t': "t' < length ss"
        by simp_all
      from Cons.IH(2) [OF c t'] Suc show ?thesis by simp
    qed
  }
qed

lemma free_running_loop_ok:
  assumes m: "modules_ok self f" and pm: "picks_maximum topk"
    and ne: "input \<noteq> []"
    and w: "\<forall>row\<in>set input. length row = 1"
    and tok: "\<forall>row\<in>set input. \<forall>t\<in>set row. t < output_size self"
    and hl: "length h = layer_size self"
    and hid: "\<forall>layer\<in>set h. length layer = length input"
    and hw: "\<forall>layer\<in>set h. \<forall>row\<in>set layer. length row = hidden_size self"
    and lo: "listener_ok self lo (length input)"
  shows "\<exists>drs. free_running_loop topk self h lo f n input acc = Inr drs"
  using ne w tok hid lo
proof (induction n arbitrary: input acc)
  case 0
  then show ?case by simp
next
  case (Suc n)
  from forward_step_ok [OF m Suc.prems(1) Suc.prems(2) _ Suc.prems(3) hl Suc.prems(4) hw
      Suc.prems(5)]
  obtain ps where st: "forward_step self input h lo f = Inr ps" and len: "length ps = length input"
    and sh: "\<forall>p\<in>set ps. length p = 1 \<and> (\<forall>d\<in>set p. length d = output_size self)"
    by auto
  let ?so = "map concat ps"
  from m have V: "0 < output_size self" by (simp add: modules_ok_def)
  have so: "\<forall>d\<in>set ?so. length d = output_size self"
  proof
    fix d assume "d \<in> set ?so"
    then obtain p where p: "p \<in> set ps" and d: "d = concat p" by auto
    from sh p have "length p = 1" and pd: "\<forall>d\<in>set p. length d = output_size self" by auto
    then obtain x where "p = [x]" by (cases p) simp_all
    with pd d show "length d = output_size self" by simp
  qed
  have "\<not> list_ex (\<lambda>d. d = []) ?so"
  proof
    assume "list_ex (\<lambda>d. d = []) ?so"
    then obtain d where d: "d \<in> set ?so" and e: "d = []"
      unfolding list_ex_iff by blast
    from so d have "length d = output_size self" by blast
    with V e show False by simp
  qed
  then have tk: "topk1 topk ?so = Inr (map (\<lambda>d. [topk d]) ?so)"
    by (simp add: topk1_def)
  let ?input' = "map (\<lambda>d. [topk d]) ?so"
  have "\<exists>drs. free_running_loop topk self h lo f n ?input' (acc @ [?so]) = Inr drs"
  proof (rule Suc.IH)
    show "?input' \<noteq> []" using Suc.prems(1) len by auto
    show "\<forall>row\<in>set ?input'. length row = 1" by simp
    show "\<forall>row\<in>set ?input'. \<forall>t\<in>set row. t < output_size self"
    proof (intro ballI)
      fix row t assume "row \<in> set ?input'" and t: "t \<in> set row"
      then obtain d where d: "d \<in> set ?so" and "row = [topk d]" by auto
      with t have "t = topk d" by simp
      moreover from so d have ld: "length d = output_size self" by blast
      with V have "d \<noteq> []" by auto
      with pm have "topk d < length d" by (simp add: picks_maximum_def)
      ultimately have "t < length d" by simp
      with ld show "t < output_size self" by simp
    qed
    show "\<forall>layer\<in>set h. length layer = length ?input'"
      using Suc.prems(4) len by simp
    show "listener_ok self lo (length ?input')"
      using Suc.prems(5) len by simp
  qed
  with st tk show ?case by (simp add: Let_def)
qed

lemma free_running_Inr_D:
  assumes fr: "free_running topk self inputs h lo f = Inr (y_hats, lg)"
    and rect: "\<forall>row\<in>set inputs. length row = l"
  shows "\<exists>new logit. lg = Some logit \<and> inputs \<noteq> [] \<and> 2 \<le> l \<and> length new = l - 1
           \<and> greedy_chain topk self h lo f (map (\<lambda>row. [row ! 0]) inputs) new
           \<and> (\<forall>s\<in>set new. length s = length inputs)
           \<and> logit = map (\<lambda>b. map (\<lambda>r. r ! b) new) [0..<length inputs]
           \<and> y_hats = map (map argmax_idx) logit"
proof -
  let ?in = "map (\<lambda>row. [row ! 0]) inputs"
  from fr obtain drs where
    loop: "free_running_loop topk self h lo f (size1 inputs - 1) ?in [] = Inr drs"
    and dec: "decode_output drs = Inr (y_hats, lg)"
    by (auto simp add: free_running_def Let_def split: if_splits sum.splits)
  have "\<forall>row\<in>set ?in. length row = 1" by simp
  from free_running_loop_chain [OF loop this] have n: "length drs = size1 inputs - 1"
    and ch: "greedy_chain topk self h lo f ?in drs" and sl: "\<forall>s\<in>set drs. length s = length inputs"
    by auto
  from decode_output_Inr_D [OF dec] obtain logit where lg: "lg = Some logit"
    and st: "stack_dim1 drs = Inr logit" and y: "y_hats = map (map argmax_idx) logit"
    by blast
  from st have dne: "drs \<noteq> []" by (rule stack_dim1_Inr_D)
  with n have "0 < size1 inputs - 1" by (cases drs) simp_all
  then have ine: "inputs \<noteq> []" by (auto simp add: size1_def)
  from ine rect have s1: "size1 inputs = l" by (rule size1_width)
  from dne have "hd drs \<in> set drs" by simp
  with sl have "length (hd drs) = length inputs" by blast
  with st dne have "logit = map (\<lambda>b. map (\<lambda>r. r ! b) drs) [0..<length inputs]"
    by (cases drs) (auto simp add: stack_dim1_def)
  with lg ine n s1 \<open>0 < size1 inputs - 1\<close> ch sl y show ?thesis
    by (intro exI [of _ drs] exI [of _ logit]) simp
qed

lemma free_running_ok:
  assumes m: "modules_ok self f" and pm: "picks_maximum topk" and ne: "inputs \<noteq> []"
    and rect: "\<forall>row\<in>set inputs. length row = l" and l: "2 \<le> l"
    and tok: "\<forall>row\<in>set inputs. row ! 0 < output_size self"
    and hl: "length h = layer_size self"
    and hid: "\<forall>layer\<in>set h. length layer = length inputs"
    and hw: "\<forall>layer\<in>set h. \<forall>row\<in>set layer. length row = hidden_size self"
    and lo: "listener_ok self lo (length inputs)"
  shows "\<exists>y_hats lg. free_running topk self inputs h lo f = Inr (y_hats, lg)"
proof -
  let ?in = "map (\<lambda>row. [row ! 0]) inputs"
  from ne rect have s1: "size1 inputs = l" by (rule size1_width)
  have w: "\<forall>row\<in>set ?in. length row = 1" by simp
  have "\<exists>drs. free_running_loop topk self h lo f (l - 1) ?in [] = Inr drs"
  proof (rule free_running_loop_ok [OF m pm _ w _ hl])
    show "?in \<noteq> []" using ne by simp
    show "\<forall>row\<in>set ?in. \<forall>t\<in>set row. t < output_size self" using tok by simp
    show "\<forall>layer\<in>set h. length layer = length ?in" using hid by simp
    show "\<forall>layer\<in>set h. \<forall>row\<in>set layer. length row = hidden_size self" by (rule hw)
    show "listener_ok self lo (length ?in)" using lo by simp
  qed
  then obtain drs where loop: "free_running_loop topk self h lo f (l - 1) ?in [] = Inr drs"
    by blast
  from free_running_loop_chain [OF loop w] have n: "length drs = l - 1"
    and ch: "greedy_chain topk self h lo f ?in drs" and sl: "\<forall>s\<in>set drs. length s = length inputs"
    by auto
  from n l obtain s ss where drs: "drs = s # ss" by (cases drs) simp_all
  let ?logit = "map (\<lambda>b. map (\<lambda>r'. r' ! b) drs) [0..<length s]"
  from drs have st: "stack_dim1 drs = Inr ?logit" by (simp add: stack_dim1_def)
  from drs sl have ls: "length s = length inputs" by simp
  have "\<forall>p\<in>set ?logit. \<forall>d\<in>set p. d \<noteq> []"
  proof (intro ballI)
    fix p d assume "p \<in> set ?logit" and d: "d \<in> set p"
    then obtain b where b: "b < length inputs" and p: "p = map (\<lambda>r'. r' ! b) drs"
      using ls by auto
    with d obtain r where r: "r \<in> set drs" and dr: "d = r ! b" by auto
    from r obtain t where t: "t < length drs" and rt: "r = drs ! t"
      by (auto simp add: in_set_conv_nth)
    from greedy_chain_nth(2) [OF ch t] rt have "list_all (\<lambda>d. d \<noteq> []) r" by simp
    moreover from sl r b have "b < length r" by simp
    ultimately show "d \<noteq> []" using dr by (simp add: list_all_length)
  qed
  with st have "decode_output drs = Inr (map (map argmax_idx) ?logit, Some ?logit)"
    by (rule decode_output_ok)
  with loop s1 l show ?thesis
    by (simp add: free_running_def Let_def)
qed

lemma greedy_steps:
  assumes ch: "greedy_chain topk self h lo f (map (\<lambda>row. [row ! 0]) inputs) new"
    and sl: "\<forall>s\<in>set new. length s = length inputs"
    and logit: "logit = map (\<lambda>b. map (\<lambda>r. r ! b) new) [0..<length inputs]"
    and t: "t < length new"
  shows "forward_step self
           (map (\<lambda>b. [if t = 0 then inputs ! b ! 0 else topk (logit ! b ! (t - 1))])
              [0..<length inputs])
           h lo f
         = Inr (map (\<lambda>b. [logit ! b ! t]) [0..<length inputs])"
proof -
  let ?B = "length inputs"
  from t sl have lt: "length (new ! t) = ?B" by simp
  have out: "map (\<lambda>d. [d]) (new ! t) = map (\<lambda>b. [logit ! b ! t]) [0..<?B]"
    using lt t logit by (intro nth_equalityI) simp_all
  have inp: "(if t = 0 then map (\<lambda>row. [row ! 0]) inputs
              else map (\<lambda>d. [topk d]) (new ! (t - 1)))
           = map (\<lambda>b. [if t = 0 then inputs ! b ! 0 else topk (logit ! b ! (t - 1))]) [0..<?B]"
  proof (cases t)
    case 0
    then show ?thesis by (simp add: map_by_index [of inputs ?B])
  next
    case (Suc t')
    with t have t': "t' < length new" by simp
    with sl have "length (new ! t') = ?B" by simp
    then have "map (\<lambda>d. [topk d]) (new ! t')
               = map (\<lambda>b. [topk (new ! t' ! b)]) [0..<?B]"
      by (rule map_by_index)
    also have "\<dots> = map (\<lambda>b. [topk (logit ! b ! t')]) [0..<?B]"
      using t' logit by simp
    finally show ?thesis using Suc by simp
  qed
  from greedy_chain_nth(1) [OF ch t] inp out show ?thesis by simp
qed

lemma forward_step_max_len:
  "forward_step (self\<lparr>max_len := m\<rparr>) input h lo f = forward_step self input h lo f"
  by (simp add: forward_step_def Let_def split: sum.splits)

lemma free_running_loop_max_len:
  "free_running_loop topk (self\<lparr>max_len := m\<rparr>) h lo f n input acc
   = free_running_loop topk self h lo f n input acc"
  by (induction n arbitrary: input acc)
    (simp_all add: forward_step_max_len Let_def split: sum.splits)

lemma non_beam_max_len:
  "forward topk (self\<lparr>max_len := m\<rparr>) inputs lh lo f ratio False rs
   = forward topk self inputs lh lo f ratio False rs"
  by (simp add: forward_modes teacher_forced_def free_running_def forward_step_max_len
      free_running_loop_max_len)

lemma speller_tie_modules_ok: "modules_ok speller_tie id"
  by (simp add: modules_ok_def speller_tie_def speller0_def)

lemma speller_tie_listener_ok: "listener_ok speller_tie [] 1"
  by (simp add: listener_ok_def speller_tie_def speller0_def)

lemma speller_tie_free_running:
  "fst (forward last_max_idx speller_tie [[0, 2, 1, 1]] () [] id 0 False rs0)
   = Inr ([[0, 2, 0]], Some [[[1, 0, 0, 1], [0, 0, 1, 0], [1, 0, 0, 0]]])"
  by code_simp

lemma speller_tie_topk: "last_max_idx [1, 0, 0, 1] = 3" "last_max_idx [0, 0, 1, 0] = 2"
  by code_simp+

lemma speller_tie_fields: "eos_id speller_tie = 2" "output_size speller_tie = 4"
  by (simp_all add: speller_tie_def)

text \<open>
  C1, as the code has it.  A free-running call on \<open>B \<ge> 1\<close> targets of width \<open>W \<ge> 2\<close>, with
  the first tokens in the vocabulary and working modules, returns \<open>W - 1\<close> distributions
  for each batch element: \<open>W - 1\<close> is the local \<open>max_len = inputs.size(1) - 1\<close>.  Step \<open>0\<close>
  is the step on the first token of each target and step \<open>t + 1\<close> the step on the index
  that \<open>topk(1)\<close> returns on step \<open>t\<close>'s distribution, one token for each batch element,
  always with the hidden state drawn at the start of the call.  The token fed is an index
  of the maximum of that distribution, as the entry of \<open>y_hats\<close> is; the two are the same
  index when the distribution has its maximum at one index only, and need not be
  otherwise, the one coming from \<open>topk\<close> and the other from \<open>max\<close>.  The number of steps
  does not depend on the tokens predicted, EOS or not: whenever a free-running call
  returns, it returns \<open>W - 1\<close> distributions for each batch element.  The field \<open>max_len\<close>
  of the decoder is not read.
\<close>

theorem free_running_feeds_own_argmax:
  "(modules_ok self f \<and> picks_maximum topk \<and> inputs \<noteq> []
      \<and> (\<forall>row\<in>set inputs. length row = l) \<and> 2 \<le> l
      \<and> (\<forall>row\<in>set inputs. row ! 0 < output_size self)
      \<and> listener_ok self lo (length inputs) \<and> \<not> drawn_coin rs < ratio
    \<longrightarrow> (\<exists>y_hats logit.
           fst (forward topk self inputs lh lo f ratio False rs) = Inr (y_hats, Some logit)
           \<and> y_hats = map (map argmax_idx) logit
           \<and> length logit = length inputs
           \<and> (\<forall>p\<in>set logit. length p = l - 1)
           \<and> (\<forall>t<l - 1.
                 forward_step self
                   (map (\<lambda>b. [if t = 0 then inputs ! b ! 0 else topk (logit ! b ! (t - 1))])
                      [0..<length inputs])
                   (drawn_hidden self (length inputs) rs) lo f
                 = Inr (map (\<lambda>b. [logit ! b ! t]) [0..<length inputs]))
           \<and> (\<forall>b<length inputs. \<forall>t<l - 1.
                 topk (logit ! b ! t) < length (logit ! b ! t)
                 \<and> logit ! b ! t ! topk (logit ! b ! t) = Max (set (logit ! b ! t))
                 \<and> y_hats ! b ! t < length (logit ! b ! t)
                 \<and> logit ! b ! t ! (y_hats ! b ! t) = Max (set (logit ! b ! t))
                 \<and> ((\<forall>i<length (logit ! b ! t).
                        logit ! b ! t ! i = Max (set (logit ! b ! t)) \<longrightarrow> i = y_hats ! b ! t)
                      \<longrightarrow> topk (logit ! b ! t) = y_hats ! b ! t))))
   \<and> (\<not> drawn_coin rs < ratio \<and> (\<forall>row\<in>set inputs. length row = l)
        \<and> fst (forward topk self inputs lh lo f ratio False rs) = Inr (y_hats', Some logit')
      \<longrightarrow> length logit' = length inputs \<and> (\<forall>p\<in>set logit'. length p = l - 1))
   \<and> forward topk (self\<lparr>max_len := m\<rparr>) inputs lh lo f ratio False rs
       = forward topk self inputs lh lo f ratio False rs"
proof (rule conjI; (rule conjI)?; (rule impI)?)
  assume a: "modules_ok self f \<and> picks_maximum topk \<and> inputs \<noteq> []
      \<and> (\<forall>row\<in>set inputs. length row = l) \<and> 2 \<le> l
      \<and> (\<forall>row\<in>set inputs. row ! 0 < output_size self)
      \<and> listener_ok self lo (length inputs) \<and> \<not> drawn_coin rs < ratio"
  let ?h = "drawn_hidden self (length inputs) rs"
  from a have rect: "\<forall>row\<in>set inputs. length row = l" by simp
  from a have pm: "picks_maximum topk" by simp
  from a have "\<exists>y_hats lg. free_running topk self inputs ?h lo f = Inr (y_hats, lg)"
    by (intro free_running_ok [where l = l] drawn_hidden_ok) simp_all
  then obtain y_hats lg where fr: "free_running topk self inputs ?h lo f = Inr (y_hats, lg)"
    by blast
  from free_running_Inr_D [OF fr rect] obtain new logit where lg: "lg = Some logit"
    and n: "length new = l - 1"
    and ch: "greedy_chain topk self ?h lo f (map (\<lambda>row. [row ! 0]) inputs) new"
    and sl: "\<forall>s\<in>set new. length s = length inputs"
    and logit: "logit = map (\<lambda>b. map (\<lambda>r. r ! b) new) [0..<length inputs]"
    and y: "y_hats = map (map argmax_idx) logit"
    by blast
  from a fr lg have "fst (forward topk self inputs lh lo f ratio False rs) = Inr (y_hats, Some logit)"
    by (simp add: forward_modes)
  moreover have "length logit = length inputs" using logit by simp
  moreover have "\<forall>p\<in>set logit. length p = l - 1" using logit n by auto
  moreover have "\<forall>t<l - 1.
                 forward_step self
                   (map (\<lambda>b. [if t = 0 then inputs ! b ! 0 else topk (logit ! b ! (t - 1))])
                      [0..<length inputs]) ?h lo f
                 = Inr (map (\<lambda>b. [logit ! b ! t]) [0..<length inputs])"
    using greedy_steps [OF ch sl logit] n by simp
  moreover have "\<forall>b<length inputs. \<forall>t<l - 1.
                 topk (logit ! b ! t) < length (logit ! b ! t)
                 \<and> logit ! b ! t ! topk (logit ! b ! t) = Max (set (logit ! b ! t))
                 \<and> y_hats ! b ! t < length (logit ! b ! t)
                 \<and> logit ! b ! t ! (y_hats ! b ! t) = Max (set (logit ! b ! t))
                 \<and> ((\<forall>i<length (logit ! b ! t).
                        logit ! b ! t ! i = Max (set (logit ! b ! t)) \<longrightarrow> i = y_hats ! b ! t)
                      \<longrightarrow> topk (logit ! b ! t) = y_hats ! b ! t)"
  proof (intro allI impI)
    fix b t
    assume b: "b < length inputs" and t: "t < l - 1"
    let ?d = "logit ! b ! t"
    from t n have t': "t < length new" by simp
    from b t' logit have d: "?d = new ! t ! b" by simp
    from sl t' have "length (new ! t) = length inputs" by simp
    with greedy_chain_nth(2) [OF ch t'] b have "new ! t ! b \<noteq> []"
      by (simp add: list_all_length)
    with d have ne: "?d \<noteq> []" by simp
    from b t' y logit have yd: "y_hats ! b ! t = argmax_idx ?d" by simp
    from picks_maximum_D [OF pm ne] have tk: "topk ?d < length ?d" "?d ! topk ?d = Max (set ?d)" .
    from ne yd have am: "y_hats ! b ! t < length ?d" "?d ! (y_hats ! b ! t) = Max (set ?d)"
      by (simp_all add: argmax_idx_less argmax_idx_Max)
    have "topk ?d = y_hats ! b ! t"
      if "\<forall>i<length ?d. ?d ! i = Max (set ?d) \<longrightarrow> i = y_hats ! b ! t"
      using that tk by blast
    with tk am show "topk ?d < length ?d
                 \<and> ?d ! topk ?d = Max (set ?d)
                 \<and> y_hats ! b ! t < length ?d
                 \<and> ?d ! (y_hats ! b ! t) = Max (set ?d)
                 \<and> ((\<forall>i<length ?d. ?d ! i = Max (set ?d) \<longrightarrow> i = y_hats ! b ! t)
                      \<longrightarrow> topk ?d = y_hats ! b ! t)"
      by blast
  qed
  ultimately show "\<exists>y_hats logit.
           fst (forward topk self inputs lh lo f ratio False rs) = Inr (y_hats, Some logit)
           \<and> y_hats = map (map argmax_idx) logit
           \<and> length logit = length inputs
           \<and> (\<forall>p\<in>set logit. length p = l - 1)
           \<and> (\<forall>t<l - 1.
                 forward_step self
                   (map (\<lambda>b. [if t = 0 then inputs ! b ! 0 else topk (logit ! b ! (t - 1))])
                      [0..<length inputs])
                   (drawn_hidden self (length inputs) rs) lo f
                 = Inr (map (\<lambda>b. [logit ! b ! t]) [0..<length inputs]))
           \<and> (\<forall>b<length inputs. \<forall>t<l - 1.
                 topk (logit ! b ! t) < length (logit ! b ! t)
                 \<and> logit ! b ! t ! topk (logit ! b ! t) = Max (set (logit ! b ! t))
                 \<and> y_hats ! b ! t < length (logit ! b ! t)
                 \<and> logit ! b ! t ! (y_hats ! b ! t) = Max (set (logit ! b ! t))
                 \<and> ((\<forall>i<length (logit ! b ! t).
                        logit ! b ! t ! i = Max (set (logit ! b ! t)) \<longrightarrow> i = y_hats ! b ! t)
                      \<longrightarrow> topk (logit ! b ! t) = y_hats ! b ! t))"
    using y by blast
next
  assume a: "\<not> drawn_coin rs < ratio \<and> (\<forall>row\<in>set inputs. length row = l)
        \<and> fst (forward topk self inputs lh lo f ratio False rs) = Inr (y_hats', Some logit')"
  let ?h = "drawn_hidden self (length inputs) rs"
  from a have rect: "\<forall>row\<in>set inputs. length row = l" by simp
  from a have fr: "free_running topk self inputs ?h lo f = Inr (y_hats', Some logit')"
    by (auto simp add: forward_modes split: if_splits)
  from free_running_Inr_D [OF fr rect] obtain new where n: "length new = l - 1"
    and logit: "logit' = map (\<lambda>b. map (\<lambda>r. r ! b) new) [0..<length inputs]"
    by auto
  then show "length logit' = length inputs \<and> (\<forall>p\<in>set logit'. length p = l - 1)"
    by auto
next
  show "forward topk (self\<lparr>max_len := m\<rparr>) inputs lh lo f ratio False rs
       = forward topk self inputs lh lo f ratio False rs"
    by (rule non_beam_max_len)
qed

text \<open>
  On the decoder with the tied maximum, \<open>topk(1)\<close> taking the last index: the first
  distribution is \<open>[1, 0, 0, 1]\<close>, of which \<open>y_hats\<close> has the index \<open>0\<close>, and the second
  step is the step on token \<open>3\<close>.  The second step predicts EOS, and the third step is
  made all the same, on EOS.
\<close>

theorem free_running_feeds_own_argmax_witness:
  "modules_ok speller_tie id \<and> picks_maximum last_max_idx \<and> listener_ok speller_tie [] 1
   \<and> \<not> drawn_coin rs0 < 0 \<and> eos_id speller_tie = 2
   \<and> fst (forward last_max_idx speller_tie [[0, 2, 1, 1]] () [] id 0 False rs0)
       = Inr ([[0, 2, 0]], Some [[[1, 0, 0, 1], [0, 0, 1, 0], [1, 0, 0, 0]]])
   \<and> last_max_idx [1, 0, 0, 1] = 3 \<and> last_max_idx [0, 0, 1, 0] = 2
   \<and> forward_step speller_tie [[0]] (drawn_hidden speller_tie 1 rs0) [] id
       = Inr [[[1, 0, 0, 1]]]
   \<and> forward_step speller_tie [[3]] (drawn_hidden speller_tie 1 rs0) [] id
       = Inr [[[0, 0, 1, 0]]]
   \<and> forward_step speller_tie [[2]] (drawn_hidden speller_tie 1 rs0) [] id
       = Inr [[[1, 0, 0, 0]]]
   \<and> forward last_max_idx (speller_tie\<lparr>max_len := 7\<rparr>) [[0, 2, 1, 1]] () [] id 0 False rs0
       = forward last_max_idx speller_tie [[0, 2, 1, 1]] () [] id 0 False rs0"
proof -
  note c1 = free_running_feeds_own_argmax [where topk = last_max_idx and self = speller_tie
      and f = id and inputs = "[[0, 2, 1, 1]]" and l = 4 and lo = "[]" and rs = rs0
      and ratio = 0 and lh = "()" and y_hats' = "[[0, 2, 0]]"
      and logit' = "[[[1, 0, 0, 1], [0, 0, 1, 0], [1, 0, 0, 0]]]" and m = 7]
  have pre: "modules_ok speller_tie id \<and> picks_maximum last_max_idx \<and> [[0, 2, 1, 1 :: nat]] \<noteq> []
      \<and> (\<forall>row\<in>set [[0, 2, 1, 1 :: nat]]. length row = 4) \<and> 2 \<le> (4 :: nat)
      \<and> (\<forall>row\<in>set [[0, 2, 1, 1 :: nat]]. row ! 0 < output_size speller_tie)
      \<and> listener_ok speller_tie [] (length [[0, 2, 1, 1 :: nat]]) \<and> \<not> drawn_coin rs0 < 0"
    using speller_tie_modules_ok picks_maximum_last_max_idx speller_tie_listener_ok rs0_coin
    by (simp add: speller_tie_fields(2))
  from c1 pre obtain y_hats logit where
    res: "fst (forward last_max_idx speller_tie [[0, 2, 1, 1]] () [] id 0 False rs0)
            = Inr (y_hats, Some logit)"
    and steps: "\<forall>t<4 - 1.
                 forward_step speller_tie
                   (map (\<lambda>b. [if t = 0 then [[0, 2, 1, 1]] ! b ! 0
                               else last_max_idx (logit ! b ! (t - 1))])
                      [0..<length [[0, 2, 1, 1 :: nat]]])
                   (drawn_hidden speller_tie (length [[0, 2, 1, 1 :: nat]]) rs0) [] id
                 = Inr (map (\<lambda>b. [logit ! b ! t]) [0..<length [[0, 2, 1, 1 :: nat]]])"
    by blast
  from res speller_tie_free_running have v: "y_hats = [[0, 2, 0]]"
    "logit = [[[1, 0, 0, 1], [0, 0, 1, 0], [1, 0, 0, 0]]]"
    by simp_all
  from steps [rule_format, of 0] v
  have s0: "forward_step speller_tie [[0]] (drawn_hidden speller_tie 1 rs0) [] id
       = Inr [[[1, 0, 0, 1]]]"
    by simp
  from steps [rule_format, of 1] v speller_tie_topk(1)
  have s1: "forward_step speller_tie [[3]] (drawn_hidden speller_tie 1 rs0) [] id
       = Inr [[[0, 0, 1, 0]]]"
    by simp
  from steps [rule_format, of 2] v speller_tie_topk(2)
  have s2: "forward_step speller_tie [[2]] (drawn_hidden speller_tie 1 rs0) [] id
       = Inr [[[1, 0, 0, 0]]]"
    by simp
  from c1 have ml: "forward last_max_idx (speller_tie\<lparr>max_len := 7\<rparr>) [[0, 2, 1, 1]] () [] id 0 False rs0
       = forward last_max_idx speller_tie [[0, 2, 1, 1]] () [] id 0 False rs0"
    by blast
  from speller_tie_modules_ok picks_maximum_last_max_idx speller_tie_listener_ok rs0_coin
    speller_tie_fields(1) speller_tie_free_running speller_tie_topk s0 s1 s2 ml
  show ?thesis by simp
qed

text \<open>
  The claim as stated fails: a decoder built with \<open>max_len = 5\<close>, called on a target of
  width \<open>3\<close>, returns \<open>2\<close> distributions and not \<open>4\<close>; nor is \<open>2\<close> one less than the
  local \<open>max_len\<close> of the call, which is \<open>2\<close> itself.
\<close>

theorem free_running_ignores_max_len_counterexample:
  "max_len speller0 = 5 \<and> \<not> drawn_coin rs0 < 0
   \<and> fst (forward argmax_idx speller0 [[0, 2, 1]] () [] id 0 False rs0)
       = Inr ([[1, 2]], Some [[[0, 1, 0], [0, 0, 1]]])
   \<and> length [[0, 1, 0], [0, 0, 1 :: real]] \<noteq> max_len speller0 - 1
   \<and> length [[0, 1, 0], [0, 0, 1 :: real]] \<noteq> (size1 [[0, 2, 1 :: nat]] - 1) - 1"
  using speller0_free_running rs0_coin speller0_fields(1) by (simp add: size1_def)

section \<open>Beam search of width one\<close>















end
